theory Spec2Isabelle
  imports Complex_Main "HOL-Library.Word"
begin

section \<open>Failures\<close>

text \<open>
  What the C++ code does when it cannot go on, as values: an index outside an array or vector
  (\<open>Out_of_bounds\<close>), the conversion \<^verbatim>\<open>(int) pow(kNucleotideCount, coverage)\<close> of a value
  that does not fit an \<^verbatim>\<open>int\<close> (\<open>Rows_overflow\<close>), and the rejection of a parameter
  (\<open>Invalid_parameter\<close>).
\<close>

datatype error = Out_of_bounds | Rows_overflow | Invalid_parameter

section \<open>Constants of utilities.cc\<close>

text \<open>
  \<^verbatim>\<open>const int kGenotypeCount = 16; const int kNucleotideCount = 4; const int kTrioCount = 42875;\<close>
  They only bound loops and index tables, so they are natural numbers here.
\<close>

definition kGenotypeCount :: nat where
  "kGenotypeCount = 16"

definition kNucleotideCount :: nat where
  "kNucleotideCount = 4"


text \<open>
  \<^verbatim>\<open>GenotypeNumIndex()\<close> fills a 16 x 2 row-major integer matrix with the comma
  initialiser; row g holds the two nucleotide indices of genotype g.
  \<^verbatim>\<open>kGenotypeNumIndex(g, a)\<close> reads row g, column a.
\<close>

definition GenotypeNumIndex :: "int list list" where
  "GenotypeNumIndex =
     [[0, 0], [0, 1], [0, 2], [0, 3],
      [1, 0], [1, 1], [1, 2], [1, 3],
      [2, 0], [2, 1], [2, 2], [2, 3],
      [3, 0], [3, 1], [3, 2], [3, 3]]"

definition kGenotypeNumIndex :: "nat \<Rightarrow> nat \<Rightarrow> int" where
  "kGenotypeNumIndex g a = GenotypeNumIndex ! g ! a"

section \<open>SimulationModel::GetChildGenotype\<close>

text \<open>
  The two calls of \<^verbatim>\<open>rand()\<close> are inputs \<open>rand1\<close> and \<open>rand2\<close> (rand() returns a
  value in [0, RAND_MAX], hence a natural number). The \<^verbatim>\<open>for\<close> loop over the table is
  the recursion \<open>GetChildGenotype_loop\<close>, which returns at the first matching row and
  falls through to the \<open>- 1\<close> of the source.
\<close>

function GetChildGenotype_loop :: "int \<Rightarrow> int \<Rightarrow> nat \<Rightarrow> int" where
  "GetChildGenotype_loop child_allele1 child_allele2 i =
     (if i < kGenotypeCount
      then (if child_allele1 = kGenotypeNumIndex i 0 \<and> child_allele2 = kGenotypeNumIndex i 1
            then int i
            else GetChildGenotype_loop child_allele1 child_allele2 (i + 1))
      else - 1)"
  by pat_completeness auto
termination
  by (relation "measure (\<lambda>(a, b, i). kGenotypeCount - i)") auto

definition GetChildGenotype :: "nat \<Rightarrow> nat \<Rightarrow> nat \<Rightarrow> nat \<Rightarrow> int" where
  "GetChildGenotype mother_genotype father_genotype rand1 rand2 =
     (let child_allele1 = kGenotypeNumIndex mother_genotype (rand1 mod 2);
          child_allele2 = kGenotypeNumIndex father_genotype (rand2 mod 2)
      in GetChildGenotype_loop child_allele1 child_allele2 0)"

section \<open>Double-precision arithmetic\<close>

text \<open>
  A \<^verbatim>\<open>double\<close> is the real number it denotes, and \<open>round_double x\<close> is the double nearest
  to the real number \<open>x\<close> (IEEE 754 binary64, round to nearest, ties to even): the value the
  machine stores for a product or a quotient of doubles whose exact value is \<open>x\<close>, and the
  value read for the decimal numeral \<open>x\<close>. Doubles have a significand of 53 bits, so the
  doubles around \<open>x\<close> are the integer multiples of \<open>2 powi (e - 52)\<close>, where \<open>2 powi e\<close> is the
  largest power of two not above \<open>\<bar>x\<bar>\<close> and \<open>e\<close> is at least -1022 (below, the doubles are
  the subnormal ones). Infinities and NaN are not values of the model: it describes runs on
  which no operation overflows. The Kronecker products and the bin programs below round
  their products and quotients in this way.
\<close>

definition round_half_even :: "real \<Rightarrow> int" where
  "round_half_even y =
     (let f = \<lfloor>y\<rfloor> in
      if y - of_int f < 1 / 2 then f
      else if 1 / 2 < y - of_int f then f + 1
      else if even f then f else f + 1)"

definition double_exponent :: "real \<Rightarrow> int" where
  "double_exponent x = max \<lfloor>log 2 \<bar>x\<bar>\<rfloor> (- 1022)"

definition round_double :: "real \<Rightarrow> real" where
  "round_double x =
     (if x = 0 then 0
      else of_int (round_half_even (x / 2 powi (double_exponent x - 52)))
             * 2 powi (double_exponent x - 52))"

section \<open>Kronecker products (utilities.cc)\<close>

text \<open>
  Eigen's fixed-size matrices of doubles are functions from an index (a pair of indices for a
  matrix) to a real number; the dimensions are those of the C++ type and the loops below
  never leave them. Each overload declares its result without initialising it and then
  assigns entries in nested loops: the parameter \<open>uninit\<close> is the content of that
  uninitialised local, and each loop is a \<open>foldl\<close> over its index range. The entry assigned
  is a product of two doubles, which the machine rounds to a double.
\<close>

type_synonym RowVector16d = "nat \<Rightarrow> real"
type_synonym RowVector256d = "nat \<Rightarrow> real"
type_synonym Matrix4d = "nat \<times> nat \<Rightarrow> real"
type_synonym Matrix4_16d = "nat \<times> nat \<Rightarrow> real"
type_synonym Matrix16_16d = "nat \<times> nat \<Rightarrow> real"
type_synonym Matrix16_256d = "nat \<times> nat \<Rightarrow> real"


definition KroneckerProduct_4_16 :: "Matrix16_256d \<Rightarrow> Matrix4_16d \<Rightarrow> Matrix16_256d" where
  "KroneckerProduct_4_16 uninit mat =
     foldl (\<lambda>kronecker_product i.
       foldl (\<lambda>kronecker_product j.
         foldl (\<lambda>kronecker_product k.
           foldl (\<lambda>kronecker_product l.
             kronecker_product((i * 4 + k, j * 16 + l) := round_double (mat (i, j) * mat (k, l))))
           kronecker_product [0..<16])
         kronecker_product [0..<4])
       kronecker_product [0..<16])
     uninit [0..<4]"

definition KroneckerProduct_4_4 :: "Matrix16_16d \<Rightarrow> Matrix4d \<Rightarrow> Matrix16_16d" where
  "KroneckerProduct_4_4 uninit mat =
     foldl (\<lambda>kronecker_product i.
       foldl (\<lambda>kronecker_product j.
         foldl (\<lambda>kronecker_product k.
           foldl (\<lambda>kronecker_product l.
             kronecker_product((i * 4 + k, j * 4 + l) := round_double (mat (i, j) * mat (k, l))))
           kronecker_product [0..<4])
         kronecker_product [0..<4])
       kronecker_product [0..<4])
     uninit [0..<4]"

section \<open>ZeroMatrix16_16_4d and TwoParentCounts (utilities.cc)\<close>

text \<open>
  A \<^verbatim>\<open>Matrix16_16_4d\<close> is a 16 x 16 matrix of 4-vectors of doubles; entry \<open>(i, j, k)\<close> is
  \<^verbatim>\<open>mat(i, j)(k)\<close>. \<^verbatim>\<open>Matrix16_16_4d mat;\<close> allocates it without initialising it: the
  parameter \<open>uninit\<close> is whatever the storage holds at that moment.

  The loops of \<^verbatim>\<open>ZeroMatrix16_16_4d\<close> are modelled as they are written:
  \<^verbatim>\<open>for (int i = 0; i < kGenotypeCount; ++i) { for (int j = 0; i < kGenotypeCount; ++i) { mat(i, j) = RowVector4d::Zero(); } }\<close>
  The inner loop tests and increments \<open>i\<close>, not \<open>j\<close>; it returns the \<open>i\<close> it ends with to
  the outer loop, which increments it once more and tests it.
\<close>

type_synonym Matrix16_16_4d = "nat \<times> nat \<times> nat \<Rightarrow> real"

definition RowVector4d_Zero :: "nat \<Rightarrow> real" where
  "RowVector4d_Zero = (\<lambda>k. 0)"

definition assign_cell :: "Matrix16_16_4d \<Rightarrow> nat \<Rightarrow> nat \<Rightarrow> (nat \<Rightarrow> real) \<Rightarrow> Matrix16_16_4d" where
  "assign_cell mat i j vec = (\<lambda>(a, b, k). if a = i \<and> b = j then vec k else mat (a, b, k))"

function ZeroMatrix16_16_4d_inner :: "nat \<Rightarrow> nat \<Rightarrow> Matrix16_16_4d \<Rightarrow> nat \<times> Matrix16_16_4d" where
  "ZeroMatrix16_16_4d_inner i j mat =
     (if i < kGenotypeCount
      then ZeroMatrix16_16_4d_inner (i + 1) j (assign_cell mat i j RowVector4d_Zero)
      else (i, mat))"
  by pat_completeness auto
termination
  by (relation "measure (\<lambda>(i, j, mat). kGenotypeCount - i)") auto

declare ZeroMatrix16_16_4d_inner.simps [simp del]

lemma ZeroMatrix16_16_4d_inner_fst:
  "fst (ZeroMatrix16_16_4d_inner i j mat) = max i kGenotypeCount"
proof (induction i j mat rule: ZeroMatrix16_16_4d_inner.induct)
  case (1 i j mat)
  show ?case
  proof (cases "i < kGenotypeCount")
    case True
    with 1 show ?thesis by (subst ZeroMatrix16_16_4d_inner.simps) simp
  next
    case False
    then show ?thesis by (subst ZeroMatrix16_16_4d_inner.simps) simp
  qed
qed

function ZeroMatrix16_16_4d_outer :: "nat \<Rightarrow> Matrix16_16_4d \<Rightarrow> Matrix16_16_4d" where
  "ZeroMatrix16_16_4d_outer i mat =
     (if i < kGenotypeCount
      then (case ZeroMatrix16_16_4d_inner i 0 mat of (i', mat') \<Rightarrow>
              ZeroMatrix16_16_4d_outer (i' + 1) mat')
      else mat)"
  by pat_completeness auto
termination
proof (relation "measure (\<lambda>(i, mat). Suc kGenotypeCount - i)", goal_cases)
  case 1
  show ?case by simp
next
  case (2 i mat x y)
  from 2(2) have "x = fst (ZeroMatrix16_16_4d_inner i 0 mat)" by (metis fst_conv)
  with 2(1) have "x = kGenotypeCount" by (simp add: ZeroMatrix16_16_4d_inner_fst)
  with 2(1) show ?case by simp
qed

declare ZeroMatrix16_16_4d_outer.simps [simp del]

definition ZeroMatrix16_16_4d :: "Matrix16_16_4d \<Rightarrow> Matrix16_16_4d" where
  "ZeroMatrix16_16_4d uninit = ZeroMatrix16_16_4d_outer 0 uninit"

text \<open>
  \<^verbatim>\<open>row_slice(i)(nucleotide_idx)++\<close> with \<^verbatim>\<open>row_slice = genotype_count.row(genotype_idx)\<close>
  increments entry \<open>(genotype_idx, i, nucleotide_idx)\<close>; the column slice increments entry
  \<open>(i, genotype_idx, nucleotide_idx)\<close>. Both slices have 16 cells.
\<close>

definition increment :: "Matrix16_16_4d \<Rightarrow> nat \<times> nat \<times> nat \<Rightarrow> Matrix16_16_4d" where
  "increment mat c = mat(c := mat c + 1)"

definition TwoParentCounts :: "Matrix16_16_4d \<Rightarrow> Matrix16_16_4d" where
  "TwoParentCounts uninit =
     foldl (\<lambda>genotype_count nucleotide_idx.
       foldl (\<lambda>genotype_count genotype_idx.
         foldl (\<lambda>genotype_count allele.
           if kGenotypeNumIndex genotype_idx allele = int nucleotide_idx
           then (let genotype_count =
                       foldl (\<lambda>genotype_count i.
                                increment genotype_count (genotype_idx, i, nucleotide_idx))
                         genotype_count [0..<kGenotypeCount];
                     genotype_count =
                       foldl (\<lambda>genotype_count i.
                                increment genotype_count (i, genotype_idx, nucleotide_idx))
                         genotype_count [0..<kGenotypeCount]
                 in genotype_count)
           else genotype_count)
         genotype_count [0..<2])
       genotype_count [0..<kGenotypeCount])
     (ZeroMatrix16_16_4d uninit) [0..<kNucleotideCount]"

text \<open>\<^verbatim>\<open>const Matrix16_16_4d kTwoParentCounts = TwoParentCounts();\<close>\<close>

definition kTwoParentCounts :: "Matrix16_16_4d \<Rightarrow> Matrix16_16_4d" where
  "kTwoParentCounts uninit = TwoParentCounts uninit"

text \<open>
  The number of occurrences of nucleotide \<open>k\<close> among the two alleles of genotype \<open>i\<close> and the
  two alleles of genotype \<open>j\<close>, read off the genotype table: what the documentation of
  \<^verbatim>\<open>TwoParentCounts\<close> says entry \<open>(i, j, k)\<close> is.
\<close>

definition allele_occurrences :: "nat \<Rightarrow> nat \<Rightarrow> nat \<Rightarrow> nat" where
  "allele_occurrences i j k =
     count_list (GenotypeNumIndex ! i @ GenotypeNumIndex ! j) (int k)"

text \<open>Auxiliary sums used to describe what the loops of \<open>TwoParentCounts\<close> add to an entry.\<close>

definition row_delta :: "nat \<Rightarrow> nat \<Rightarrow> nat \<times> nat \<times> nat \<Rightarrow> real" where
  "row_delta g n c = sum_list (map (\<lambda>i. if c = (g, i, n) then 1 else 0) [0..<kGenotypeCount])"

definition col_delta :: "nat \<Rightarrow> nat \<Rightarrow> nat \<times> nat \<times> nat \<Rightarrow> real" where
  "col_delta g n c = sum_list (map (\<lambda>i. if c = (i, g, n) then 1 else 0) [0..<kGenotypeCount])"

definition allele_delta :: "nat \<Rightarrow> nat \<Rightarrow> nat \<Rightarrow> nat \<times> nat \<times> nat \<Rightarrow> real" where
  "allele_delta n g a c =
     (if kGenotypeNumIndex g a = int n then row_delta g n c + col_delta g n c else 0)"

definition allele_matches :: "nat \<Rightarrow> nat \<Rightarrow> real" where
  "allele_matches x k =
     sum_list (map (\<lambda>n. sum_list (map (\<lambda>g. sum_list (map (\<lambda>a.
       if kGenotypeNumIndex g a = int n \<and> x = g \<and> k = n then 1 else 0) [0..<2]))
         [0..<kGenotypeCount])) [0..<kNucleotideCount])"

section \<open>Binning (bin_driver.cc, count_bin_trio.cc)\<close>












section \<open>Read counts (utilities.cc)\<close>

text \<open>
  \<^verbatim>\<open>union ReadData { uint16_t reads[4]; uint64_t key; };\<close> Only \<^verbatim>\<open>reads\<close> is used by the
  functions below: a \<open>ReadData\<close> is the list of its four 16-bit counts. A
  \<^verbatim>\<open>ReadDataVector\<close> is a \<^verbatim>\<open>vector<ReadData>\<close> and a \<^verbatim>\<open>TrioVector\<close> a vector of those.
\<close>

type_synonym ReadData = "16 word list"
type_synonym ReadDataVector = "ReadData list"
type_synonym RowVector4d = "nat \<Rightarrow> real"

text \<open>
  \<^verbatim>\<open>DirichletMultinomialLog\<close>. Doubles are idealised as real numbers and the C library's
  \<^verbatim>\<open>lgamma\<close> is a parameter. \<^verbatim>\<open>alpha.sum()\<close> adds the four entries; \<^verbatim>\<open>n\<close> is an
  \<^verbatim>\<open>int\<close>, the sum of the four counts after integer promotion (at most 4 * 65535, so it
  does not overflow).
\<close>

definition DirichletMultinomialLog ::
  "(real \<Rightarrow> real) \<Rightarrow> RowVector4d \<Rightarrow> ReadData \<Rightarrow> real" where
  "DirichletMultinomialLog lgamma alpha data =
     (let a = alpha 0 + alpha 1 + alpha 2 + alpha 3;
          n = uint (data ! 0) + uint (data ! 1) + uint (data ! 2) + uint (data ! 3);
          constant_term = lgamma a - lgamma (real_of_int n + a);
          product_term =
            foldl (\<lambda>product_term i.
                     product_term
                       + (lgamma (alpha i + real_of_int (uint (data ! i))) - lgamma (alpha i)))
              0 [0..<kNucleotideCount]
      in constant_term + product_term)"

section \<open>Enumerating read counts and trios (utilities.cc)\<close>

text \<open>
  An Eigen \<^verbatim>\<open>MatrixXi\<close> with four columns is the list of its rows, each a list of four
  \<^verbatim>\<open>int\<close>s. \<^verbatim>\<open>Matrix4i::Identity()\<close> is \<open>identity_mat\<close>, and the sum of two rows is taken
  entry by entry.
\<close>

type_synonym MatrixXi = "int list list"

definition identity_mat :: MatrixXi where
  "identity_mat = [[1, 0, 0, 0], [0, 1, 0, 0], [0, 0, 1, 0], [0, 0, 0, 1]]"

definition add_rows :: "int list \<Rightarrow> int list \<Rightarrow> int list" where
  "add_rows r1 r2 = map2 (+) r1 r2"

text \<open>
  \<^verbatim>\<open>int rows = (int) pow(kNucleotideCount, coverage);\<close> For a coverage of at least 0 the power
  is the integer \<open>4 ^ coverage\<close>; for a negative coverage it lies strictly between 0 and 1
  and the conversion truncates it to 0. The conversion is undefined when the value does not fit
  an \<^verbatim>\<open>int\<close> (from \<open>2 ^ 31\<close> on), and no matrix of that many rows can be allocated: the
  model returns \<open>Rows_overflow\<close> there, before the recursive call, as the source allocates
  \<^verbatim>\<open>counts\<close> before it recurses.
\<close>

definition pow_rows :: "int \<Rightarrow> int" where
  "pow_rows coverage = (if 0 \<le> coverage then 4 ^ nat coverage else 0)"

text \<open>
  The two loops of \<^verbatim>\<open>EnumerateNucleotideCounts\<close>:
  \<^verbatim>\<open>counts.row(i + j*kNucleotideCount) = identity_mat.row(i) + recursive.row(j)\<close> for every row
  \<open>j\<close> of \<^verbatim>\<open>recursive\<close> and every \<open>i < 4\<close>, on the matrix \<^verbatim>\<open>counts\<close> as allocated.
\<close>

definition Enumerate_fill :: "MatrixXi \<Rightarrow> MatrixXi \<Rightarrow> MatrixXi" where
  "Enumerate_fill counts' recursive =
     foldl (\<lambda>counts' j.
       foldl (\<lambda>counts' i.
         counts'[i + j * kNucleotideCount := add_rows (identity_mat ! i) (recursive ! j)])
       counts' [0..<kNucleotideCount])
     counts' [0..<length recursive]"

text \<open>
  \<^verbatim>\<open>EnumerateNucleotideCounts\<close> recurses on \<open>coverage - 1\<close> until the coverage is 1; called
  with a coverage below 1 it never reaches the base case, so the function is partial
  (\<open>None\<close> is: no result). \<^verbatim>\<open>MatrixXi counts(rows, kNucleotideCount)\<close> is allocated without
  being initialised: \<open>uninit coverage i\<close> is what row \<open>i\<close> of it holds in the call for
  \<open>coverage\<close>.
\<close>

partial_function (option) EnumerateNucleotideCounts ::
  "(int \<Rightarrow> nat \<Rightarrow> int list) \<Rightarrow> int \<Rightarrow> (error + MatrixXi) option" where
  "EnumerateNucleotideCounts uninit coverage =
     (if coverage = 1 then Some (Inr identity_mat)
      else if 2 ^ 31 \<le> pow_rows coverage then Some (Inl Rows_overflow)
      else Option.bind (EnumerateNucleotideCounts uninit (coverage - 1))
             (\<lambda>r. case r of
                    Inl e \<Rightarrow> Some (Inl e)
                  | Inr recursive \<Rightarrow>
                      Some (Inr (Enumerate_fill
                                   (map (uninit coverage) [0..<nat (pow_rows coverage)])
                                   recursive))))"

declare EnumerateNucleotideCounts.simps [code]

text \<open>
  \<^verbatim>\<open>GetUniqueReadDataVector\<close>: the body of the loop over the rows \<open>i\<close> of \<open>mat\<close>. The inner
  loop over \<^verbatim>\<open>data_vec\<close> sets \<^verbatim>\<open>is_in_vec\<close> when an element has the four counts of row
  \<open>i\<close> (a \<^verbatim>\<open>uint16_t\<close> is promoted to \<^verbatim>\<open>int\<close> for the comparison); a new row is converted
  entry by entry (\<^verbatim>\<open>data.reads[j] = mat(i, j)\<close> truncates to 16 bits) and appended.
\<close>

definition GetUniqueReadDataVector_body ::
  "MatrixXi \<Rightarrow> ReadDataVector \<Rightarrow> nat \<Rightarrow> ReadDataVector" where
  "GetUniqueReadDataVector_body mat data_vec i =
     (let is_in_vec =
            foldl (\<lambda>is_in_vec data.
                     if uint (data ! 0) = mat ! i ! 0 \<and> uint (data ! 1) = mat ! i ! 1
                          \<and> uint (data ! 2) = mat ! i ! 2 \<and> uint (data ! 3) = mat ! i ! 3
                     then True else is_in_vec)
              False data_vec
      in if \<not> is_in_vec
         then (let data = foldl (\<lambda>data j. data[j := word_of_int (mat ! i ! j)])
                            [0, 0, 0, 0] [0..<kNucleotideCount]
               in data_vec @ [data])
         else data_vec)"

definition GetUniqueReadDataVector :: "MatrixXi \<Rightarrow> ReadDataVector" where
  "GetUniqueReadDataVector mat =
     foldl (GetUniqueReadDataVector_body mat) [] [0..<length mat]"







text \<open>
  Reference notions for the statements about the enumeration: the matrix the two loops build
  from \<open>recursive\<close> (\<open>expand_rows\<close>), the matrix for coverage \<open>n + 1\<close> (\<open>enum_rows n\<close>), the
  set of all vectors of four non-negative counts with a given sum (\<open>compositions\<close>), rows whose
  counts fit 16 bits (\<open>in_range\<close>), the conversion of a row (\<open>to_ReadData\<close>), keeping the first
  occurrence of each row (\<open>dedup_step\<close>, \<open>unique_step\<close>), and the Cartesian cube of a list of
  read counts in the order of the three loops (\<open>trio_cube\<close>).
\<close>

definition expand_rows :: "MatrixXi \<Rightarrow> MatrixXi" where
  "expand_rows recursive =
     map (\<lambda>p. add_rows (identity_mat ! (p mod 4)) (recursive ! (p div 4)))
       [0..<4 * length recursive]"

primrec enum_rows :: "nat \<Rightarrow> MatrixXi" where
  "enum_rows 0 = identity_mat"
| "enum_rows (Suc n) = expand_rows (enum_rows n)"

definition compositions :: "nat \<Rightarrow> int list set" where
  "compositions m = {l. length l = 4 \<and> (\<forall>x\<in>set l. 0 \<le> x) \<and> sum_list l = int m}"

definition in_range :: "int list \<Rightarrow> bool" where
  "in_range row = (length row = 4 \<and> (\<forall>x\<in>set row. 0 \<le> x \<and> x < 65536))"

definition to_ReadData :: "int list \<Rightarrow> ReadData" where
  "to_ReadData row = map word_of_int row"

definition dedup_step :: "int list list \<Rightarrow> int list \<Rightarrow> int list list" where
  "dedup_step ds row = (if row \<in> set ds then ds else ds @ [row])"

definition unique_step :: "ReadDataVector \<Rightarrow> int list \<Rightarrow> ReadDataVector" where
  "unique_step data_vec row =
     (if \<exists>data\<in>set data_vec. uint (data ! 0) = row ! 0 \<and> uint (data ! 1) = row ! 1
                                   \<and> uint (data ! 2) = row ! 2 \<and> uint (data ! 3) = row ! 3
      then data_vec else data_vec @ [to_ReadData row])"


section \<open>The simulator (simulation_model.cc)\<close>

text \<open>
  Modelled from the spec: the class \<^verbatim>\<open>TrioModel\<close> (trio_model.h, trio_model.cc) is not among
  the sources; only its uses in simulation_model.cc are. The record holds what those uses
  read and write: the two rates, the germline transition matrix (16 x 256, one column per
  pair of parent genotypes), the somatic transition matrix (16 x 16), the population priors
  over the 256 pairs of parent genotypes, and the per-site mutation flag behind
  \<^verbatim>\<open>has_mutation()\<close> and \<^verbatim>\<open>set_has_mutation()\<close>.
\<close>

record TrioModel =
  germline_mutation_rate :: real
  somatic_mutation_rate :: real
  germline_probability_mat :: Matrix16_256d
  somatic_probability_mat :: Matrix16_16d
  population_priors :: RowVector256d
  has_mutation :: bool

text \<open>
  Modelled from the spec: section 4.2, "builds a 4 x 4 nucleotide substitution matrix for
  somatic mutation with off-diagonal mass proportional to s (uniform substitution model) and
  Kronecker-expands it to the 16 x 16 diploid-genotype somatic transition". Row \<open>a\<close> gives the
  distribution of the nucleotide that \<open>a\<close> becomes: it stays with probability \<open>1 - rate\<close> and
  becomes each of the three others with probability \<open>rate / 3\<close>. The expansion is the
  \<^verbatim>\<open>KroneckerProduct\<close> of utilities.cc, which assigns every entry of its result.
\<close>

definition nucleotide_substitution :: "real \<Rightarrow> Matrix4d" where
  "nucleotide_substitution rate = (\<lambda>(a, b). if a = b then 1 - rate else rate / 3)"

text \<open>
  Modelled from the spec: the 16 x 16 somatic transition of \<^verbatim>\<open>TrioModel\<close>, the
  Kronecker product of the substitution matrix with itself (section 4.2).
\<close>

definition SomaticProbabilityMat :: "real \<Rightarrow> Matrix16_16d" where
  "SomaticProbabilityMat rate = KroneckerProduct_4_4 (\<lambda>c. 0) (nucleotide_substitution rate)"

text \<open>
  Modelled from the spec: section 4.2, "builds a 4 x 16 germline transition (distribution over
  a single inherited allele given a parental genotype, perturbed by rate g) and
  Kronecker-expands it to 16 x 256". A parent of genotype \<open>g\<close> passes on each of its two
  alleles with probability 1/2, and the allele passed on is substituted at the germline rate.
\<close>

definition GermlineProbabilityMatSingle :: "real \<Rightarrow> Matrix4_16d" where
  "GermlineProbabilityMatSingle rate =
     (\<lambda>(a, g). (nucleotide_substitution rate (nat (kGenotypeNumIndex g 0), a)
                + nucleotide_substitution rate (nat (kGenotypeNumIndex g 1), a)) / 2)"

text \<open>
  Modelled from the spec: the 16 x 256 germline transition of \<^verbatim>\<open>TrioModel\<close>, the
  Kronecker product of the 4 x 16 matrix with itself (section 4.2): entry
  \<open>(a1 * 4 + a2, m * 16 + f)\<close> is the probability that the child of mother \<open>m\<close> and father
  \<open>f\<close> has genotype \<open>(a1, a2)\<close>.
\<close>

definition GermlineProbabilityMat :: "real \<Rightarrow> Matrix16_256d" where
  "GermlineProbabilityMat rate =
     KroneckerProduct_4_16 (\<lambda>c. 0) (GermlineProbabilityMatSingle rate)"

text \<open>
  Modelled from the spec: the setters of \<^verbatim>\<open>TrioModel\<close>, which are not among the sources.
  Section 4.2: "any rate outside [0,1] must be rejected before matrix construction"; section
  7: "rejected before any matrix is built; fatal to the current operation (no partial state is
  produced)". A rejected call returns \<open>Invalid_parameter\<close> and no model; an accepted one stores
  the rate and rebuilds the matrix that depends on it.
\<close>

definition TrioModel_set_germline_mutation_rate :: "real \<Rightarrow> TrioModel \<Rightarrow> error + TrioModel" where
  "TrioModel_set_germline_mutation_rate rate p =
     (if rate < 0 \<or> 1 < rate then Inl Invalid_parameter
      else Inr (p\<lparr>germline_mutation_rate := rate,
                 germline_probability_mat := GermlineProbabilityMat rate\<rparr>))"

text \<open>
  Modelled from the spec: \<^verbatim>\<open>TrioModel::set_somatic_mutation_rate\<close>, under the same rule
  (sections 4.2 and 7).
\<close>

definition TrioModel_set_somatic_mutation_rate :: "real \<Rightarrow> TrioModel \<Rightarrow> error + TrioModel" where
  "TrioModel_set_somatic_mutation_rate rate p =
     (if rate < 0 \<or> 1 < rate then Inl Invalid_parameter
      else Inr (p\<lparr>somatic_mutation_rate := rate,
                 somatic_probability_mat := SomaticProbabilityMat rate\<rparr>))"

text \<open>
  \<^verbatim>\<open>SimulationModel\<close> (simulation_model.h): the members \<^verbatim>\<open>params_\<close> and \<^verbatim>\<open>coverage_\<close>
  (written \<open>params'\<close> and \<open>coverage'\<close>: a name cannot end with an underscore here). The random
  number generator \<^verbatim>\<open>r\<close> is not a field: every random outcome is an input of the function
  that draws it. The setters of simulation_model.cc pass the rate on to \<^verbatim>\<open>params_\<close>, and the
  constructor calls the two setters of \<^verbatim>\<open>params_\<close> on the default-constructed model
  (\<open>default_params\<close>, a parameter: the default constructor of \<^verbatim>\<open>TrioModel\<close> is not among the
  sources).
\<close>

record SimulationModel =
  params' :: TrioModel
  coverage' :: nat

definition set_germline_mutation_rate :: "real \<Rightarrow> SimulationModel \<Rightarrow> error + SimulationModel" where
  "set_germline_mutation_rate rate sim =
     (case TrioModel_set_germline_mutation_rate rate (params' sim) of
        Inl e \<Rightarrow> Inl e
      | Inr p \<Rightarrow> Inr (sim\<lparr>params' := p\<rparr>))"

definition set_somatic_mutation_rate :: "real \<Rightarrow> SimulationModel \<Rightarrow> error + SimulationModel" where
  "set_somatic_mutation_rate rate sim =
     (case TrioModel_set_somatic_mutation_rate rate (params' sim) of
        Inl e \<Rightarrow> Inl e
      | Inr p \<Rightarrow> Inr (sim\<lparr>params' := p\<rparr>))"

definition SimulationModel_ctor ::
  "TrioModel \<Rightarrow> nat \<Rightarrow> real \<Rightarrow> real \<Rightarrow> error + SimulationModel" where
  "SimulationModel_ctor default_params coverage germline_rate somatic_rate =
     (case set_germline_mutation_rate germline_rate
             \<lparr>params' = default_params, coverage' = coverage\<rparr> of
        Inl e \<Rightarrow> Inl e
      | Inr sim \<Rightarrow> set_somatic_mutation_rate somatic_rate sim)"

text \<open>
  \<^verbatim>\<open>RandomDiscreteChoice(K, probabilities)\<close> copies the weights, has the GSL library build a
  discrete distribution over \<open>K\<close> categories from them and returns the category
  \<^verbatim>\<open>gsl_ran_discrete\<close> draws, cast to \<^verbatim>\<open>int\<close>. The category drawn is the input \<open>random\<close>;
  the categories the library can draw are those below \<open>K\<close> of positive weight
  (\<open>possible_draw\<close>).
\<close>

definition possible_draw :: "nat \<Rightarrow> (nat \<Rightarrow> real) \<Rightarrow> nat \<Rightarrow> bool" where
  "possible_draw K probabilities random = (random < K \<and> 0 < probabilities random)"

definition RandomDiscreteChoice :: "nat \<Rightarrow> (nat \<Rightarrow> real) \<Rightarrow> nat \<Rightarrow> int" where
  "RandomDiscreteChoice K probabilities random = int random"

text \<open>
  \<^verbatim>\<open>SimulationModel::Mutate\<close>. \<open>Mutate_mat\<close> is the weight vector the source selects: row
  \<open>genotype_idx\<close> of the somatic matrix, or column \<open>parent_genotype_idx\<close> of the germline matrix
  when \<open>is_germline\<close> is set. The function returns the genotype drawn and the simulator with
  the mutation flag set when the genotype drawn differs from \<open>genotype_idx\<close>.
\<close>

definition Mutate_mat :: "SimulationModel \<Rightarrow> int \<Rightarrow> bool \<Rightarrow> int \<Rightarrow> RowVector16d" where
  "Mutate_mat sim genotype_idx is_germline parent_genotype_idx =
     (if \<not> is_germline
      then (\<lambda>j. somatic_probability_mat (params' sim) (nat genotype_idx, j))
      else (\<lambda>i. germline_probability_mat (params' sim) (i, nat parent_genotype_idx)))"

definition Mutate ::
  "SimulationModel \<Rightarrow> int \<Rightarrow> bool \<Rightarrow> int \<Rightarrow> nat \<Rightarrow> int \<times> SimulationModel" where
  "Mutate sim genotype_idx is_germline parent_genotype_idx random =
     (let mat = Mutate_mat sim genotype_idx is_germline parent_genotype_idx;
          mutated_genotype_idx = RandomDiscreteChoice kGenotypeCount mat random;
          sim = (if mutated_genotype_idx \<noteq> genotype_idx
                 then sim\<lparr>params' := (params' sim)\<lparr>has_mutation := True\<rparr>\<rparr>
                 else sim)
      in (mutated_genotype_idx, sim))"

text \<open>
  \<^verbatim>\<open>SimulationModel::WriteProbability\<close>. The random outcomes of one site, in the order of the
  source: the pair of parent genotypes drawn from the population priors, the two \<^verbatim>\<open>rand()\<close>
  values of \<^verbatim>\<open>GetChildGenotype\<close>, the four genotypes drawn in \<^verbatim>\<open>Mutate\<close>, and the three
  read counts drawn in \<^verbatim>\<open>DirichletMultinomialSample\<close>. The list of sites has
  \<^verbatim>\<open>experiment_count\<close> elements. \<open>MutationProbability\<close> is the probability engine, which is not
  among the sources: it is a parameter, a function of the model parameters and the reads of
  the site (spec, section 4.3), and \<open>show_double\<close> is the text the stream writes for a double.
  The output file is the list of the lines written.
\<close>

record site_draws =
  parent_genotypes_draw :: nat
  rand1_draw :: nat
  rand2_draw :: nat
  germline_draw :: nat
  child_somatic_draw :: nat
  mother_somatic_draw :: nat
  father_somatic_draw :: nat
  child_read :: ReadData
  mother_read :: ReadData
  father_read :: ReadData

definition WriteProbability_site ::
  "(TrioModel \<Rightarrow> ReadDataVector \<Rightarrow> real) \<Rightarrow> (real \<Rightarrow> string)
     \<Rightarrow> SimulationModel \<Rightarrow> site_draws \<Rightarrow> string \<times> SimulationModel" where
  "WriteProbability_site MutationProbability show_double sim site =
     (let parent_genotype = RandomDiscreteChoice (kGenotypeCount * kGenotypeCount)
                              (population_priors (params' sim)) (parent_genotypes_draw site);
          father_genotype = parent_genotype div int kGenotypeCount;
          mother_genotype = parent_genotype mod int kGenotypeCount;
          child_genotype = GetChildGenotype (nat mother_genotype) (nat father_genotype)
                             (rand1_draw site) (rand2_draw site);
          (child_germline_genotype, sim) =
             Mutate sim child_genotype True
               (mother_genotype * int kGenotypeCount + father_genotype) (germline_draw site);
          (child_somatic_genotype, sim) =
             Mutate sim child_germline_genotype False (- 1) (child_somatic_draw site);
          (mother_somatic_genotype, sim) =
             Mutate sim mother_genotype False (- 1) (mother_somatic_draw site);
          (father_somatic_genotype, sim) =
             Mutate sim father_genotype False (- 1) (father_somatic_draw site);
          data_vec = [child_read site, mother_read site, father_read site];
          probability = MutationProbability (params' sim) data_vec;
          line = show_double probability @ [CHR 0x09]
                   @ (if has_mutation (params' sim) then ''1'' else ''0'') @ [CHR 0x0A];
          sim = sim\<lparr>params' := (params' sim)\<lparr>has_mutation := False\<rparr>\<rparr>
      in (line, sim))"

fun WriteProbability_loop ::
  "(TrioModel \<Rightarrow> ReadDataVector \<Rightarrow> real) \<Rightarrow> (real \<Rightarrow> string)
     \<Rightarrow> string list \<Rightarrow> SimulationModel \<Rightarrow> site_draws list \<Rightarrow> string list \<times> SimulationModel" where
  "WriteProbability_loop MutationProbability show_double fout sim [] = (fout, sim)"
| "WriteProbability_loop MutationProbability show_double fout sim (site # sites) =
     (case WriteProbability_site MutationProbability show_double sim site of
        (line, sim) \<Rightarrow>
          WriteProbability_loop MutationProbability show_double (fout @ [line]) sim sites)"

definition WriteProbability ::
  "(TrioModel \<Rightarrow> ReadDataVector \<Rightarrow> real) \<Rightarrow> (real \<Rightarrow> string)
     \<Rightarrow> SimulationModel \<Rightarrow> site_draws list \<Rightarrow> string list \<times> SimulationModel" where
  "WriteProbability MutationProbability show_double sim sites =
     WriteProbability_loop MutationProbability show_double [] sim sites"

text \<open>
  Reference notions for the statements about the simulator. \<open>site_child_genotype\<close> is the
  child genotype \<^verbatim>\<open>GetChildGenotype\<close> picks at a site. \<open>site_mutated\<close> says that at least one of
  the four \<^verbatim>\<open>Mutate\<close> calls of the site (germline for the child, then somatic for the child,
  the mother and the father) returned a genotype other than the one it was given.
  \<open>site_line\<close> is the line \<^verbatim>\<open><probability><tab><flag><newline>\<close> of a site.
\<close>

definition site_child_genotype :: "site_draws \<Rightarrow> int" where
  "site_child_genotype site =
     GetChildGenotype (nat (int (parent_genotypes_draw site) mod int kGenotypeCount))
       (nat (int (parent_genotypes_draw site) div int kGenotypeCount))
       (rand1_draw site) (rand2_draw site)"

definition site_mutated :: "SimulationModel \<Rightarrow> site_draws \<Rightarrow> bool" where
  "site_mutated sim site =
     (let mother_genotype = int (parent_genotypes_draw site) mod int kGenotypeCount;
          father_genotype = int (parent_genotypes_draw site) div int kGenotypeCount;
          child_genotype = GetChildGenotype (nat mother_genotype) (nat father_genotype)
                             (rand1_draw site) (rand2_draw site);
          parent_idx = mother_genotype * int kGenotypeCount + father_genotype;
          (germline, sim1) = Mutate sim child_genotype True parent_idx (germline_draw site);
          (child_somatic, sim2) = Mutate sim1 germline False (- 1) (child_somatic_draw site);
          (mother_somatic, sim3) =
             Mutate sim2 mother_genotype False (- 1) (mother_somatic_draw site);
          (father_somatic, sim4) =
             Mutate sim3 father_genotype False (- 1) (father_somatic_draw site)
      in germline \<noteq> child_genotype \<or> child_somatic \<noteq> germline
           \<or> mother_somatic \<noteq> mother_genotype \<or> father_somatic \<noteq> father_genotype)"

definition site_line ::
  "(TrioModel \<Rightarrow> ReadDataVector \<Rightarrow> real) \<Rightarrow> (real \<Rightarrow> string)
     \<Rightarrow> SimulationModel \<Rightarrow> site_draws \<Rightarrow> string" where
  "site_line MutationProbability show_double sim site =
     show_double (MutationProbability
        ((params' sim)\<lparr>has_mutation := site_mutated sim site\<rparr>)
        [child_read site, mother_read site, father_read site])
       @ [CHR 0x09] @ (if site_mutated sim site then ''1'' else ''0'') @ [CHR 0x0A]"

text \<open>
  A model with both rates 0, as the constructor leaves it when called with rates 0 and 0 (the
  population priors are uniform here; the statements below only need the pair drawn to have
  a positive prior), and two sites: one with mother AC and father AA, where the child
  inherits C from the mother and the germline draw gives AA, and one with both parents AA.
\<close>

definition default_TrioModel :: TrioModel where
  "default_TrioModel =
     \<lparr>germline_mutation_rate = 0, somatic_mutation_rate = 0,
      germline_probability_mat = GermlineProbabilityMat 0,
      somatic_probability_mat = SomaticProbabilityMat 0,
      population_priors = (\<lambda>i. 1 / 256), has_mutation = False\<rparr>"

definition site_AC_AA :: site_draws where
  "site_AC_AA =
     \<lparr>parent_genotypes_draw = 1, rand1_draw = 1, rand2_draw = 0, germline_draw = 0,
      child_somatic_draw = 0, mother_somatic_draw = 1, father_somatic_draw = 0,
      child_read = [4, 0, 0, 0], mother_read = [2, 2, 0, 0], father_read = [4, 0, 0, 0]\<rparr>"

definition site_AA_AA :: site_draws where
  "site_AA_AA =
     \<lparr>parent_genotypes_draw = 0, rand1_draw = 1, rand2_draw = 0, germline_draw = 0,
      child_somatic_draw = 0, mother_somatic_draw = 0, father_somatic_draw = 0,
      child_read = [4, 0, 0, 0], mother_read = [4, 0, 0, 0], father_read = [4, 0, 0, 0]\<rparr>"

section \<open>Facts about the genotype table\<close>

lemma nat_less_16_cases:
  "(g::nat) < 16 \<Longrightarrow> g \<in> {0, 1, 2, 3, 4, 5, 6, 7, 8, 9, 10, 11, 12, 13, 14, 15}"
  by simp arith

lemma nat_less_4_cases: "(g::nat) < 4 \<Longrightarrow> g \<in> {0, 1, 2, 3}"
  by simp arith

lemma kGenotypeNumIndex_eq:
  assumes "g < 16" and "a < 2"
  shows "kGenotypeNumIndex g a = (if a = 0 then int (g div 4) else int (g mod 4))"
proof -
  have a: "a = 0 \<or> a = 1" using assms(2) by auto
  from nat_less_16_cases [OF assms(1)] a show ?thesis
    by (auto simp: kGenotypeNumIndex_def GenotypeNumIndex_def)
qed

lemma GetChildGenotype_loop_finds:
  assumes "a1 < 4" and "a2 < 4"
  shows "GetChildGenotype_loop (int a1) (int a2) 0 = int (a1 * 4 + a2)"
  using nat_less_4_cases [OF assms(1)] nat_less_4_cases [OF assms(2)]
  by (auto simp: kGenotypeCount_def kGenotypeNumIndex_def GenotypeNumIndex_def)

lemma GetChildGenotype_eq:
  assumes "mother_genotype < 16" and "father_genotype < 16"
  shows "GetChildGenotype mother_genotype father_genotype rand1 rand2 =
           int ((if rand1 mod 2 = 0 then mother_genotype div 4 else mother_genotype mod 4) * 4
              + (if rand2 mod 2 = 0 then father_genotype div 4 else father_genotype mod 4))"
proof -
  let ?a1 = "if rand1 mod 2 = 0 then mother_genotype div 4 else mother_genotype mod 4"
  let ?a2 = "if rand2 mod 2 = 0 then father_genotype div 4 else father_genotype mod 4"
  have k1: "kGenotypeNumIndex mother_genotype (rand1 mod 2) = int ?a1"
    using kGenotypeNumIndex_eq [OF assms(1), of "rand1 mod 2"] by simp
  have k2: "kGenotypeNumIndex father_genotype (rand2 mod 2) = int ?a2"
    using kGenotypeNumIndex_eq [OF assms(2), of "rand2 mod 2"] by simp
  have b1: "?a1 < 4" using assms(1) by auto
  have b2: "?a2 < 4" using assms(2) by auto
  show ?thesis
    unfolding GetChildGenotype_def Let_def k1 k2
    by (rule GetChildGenotype_loop_finds [OF b1 b2])
qed

lemma table_row_of_pair:
  assumes "a < 4" and "b < 4"
  shows "a * 4 + b < kGenotypeCount \<and> kGenotypeNumIndex (a * 4 + b) 0 = int a
           \<and> kGenotypeNumIndex (a * 4 + b) 1 = int b"
  using nat_less_4_cases [OF assms(1)] nat_less_4_cases [OF assms(2)]
  by (auto simp: kGenotypeCount_def kGenotypeNumIndex_def GenotypeNumIndex_def)

section \<open>Rounding to a double\<close>

lemma round_half_even_le: "y \<le> of_int N \<Longrightarrow> round_half_even y \<le> N"
  unfolding round_half_even_def Let_def by (auto; linarith)

lemma round_half_even_ge: "of_int N \<le> y \<Longrightarrow> N \<le> round_half_even y"
  unfolding round_half_even_def Let_def by (auto; linarith)

lemma double_exponent_bound:
  assumes "x \<noteq> 0" and "\<bar>x\<bar> < 2 powi (j + 53)" and "- 1074 \<le> j"
  shows "double_exponent x - 52 \<le> j"
proof -
  from assms(1) have pos: "0 < \<bar>x\<bar>" by simp
  have "(2::real) powr real_of_int (j + 53) = 2 powi (j + 53)"
    by (rule powr_real_of_int') simp_all
  with assms(2) have "\<bar>x\<bar> < 2 powr real_of_int (j + 53)" by simp
  then have "log 2 \<bar>x\<bar> < real_of_int (j + 53)"
    using pos by (subst log_less_iff) simp_all
  then have "\<lfloor>log 2 \<bar>x\<bar>\<rfloor> < j + 53" by linarith
  with assms(3) show ?thesis unfolding double_exponent_def by simp
qed



lemma dyadic_over_ulp:
  assumes "e \<le> j"
  shows "of_int k * 2 powi j / 2 powi e = (of_int (k * 2 ^ nat (j - e)) :: real)"
proof -
  have "(2::real) powi j = 2 powi (j - e) * 2 powi e"
    by (simp add: power_int_diff)
  moreover have "(2::real) powi (j - e) = 2 ^ nat (j - e)"
    using assms by (simp add: power_int_def)
  ultimately show ?thesis by simp
qed

text \<open>
  Rounding never crosses a double: a number \<open>k * 2 powi j\<close> that is a multiple of the spacing
  of the doubles around \<open>x\<close> bounds \<open>round_double x\<close> whenever it bounds \<open>x\<close>.
\<close>

lemma round_double_le:
  assumes "x \<le> of_int k * 2 powi j" and "\<bar>x\<bar> < 2 powi (j + 53)" and "- 1074 \<le> j"
  shows "round_double x \<le> of_int k * 2 powi j"
proof (cases "x = 0")
  case True
  with assms(1) show ?thesis by (simp add: round_double_def)
next
  case False
  let ?e = "double_exponent x - 52"
  have e: "?e \<le> j" by (rule double_exponent_bound [OF False assms(2,3)])
  have pos: "(0::real) < 2 powi ?e" by simp
  have "x / 2 powi ?e \<le> of_int k * 2 powi j / 2 powi ?e"
    using assms(1) pos by (simp add: divide_right_mono)
  then have "x / 2 powi ?e \<le> of_int (k * 2 ^ nat (j - ?e))"
    unfolding dyadic_over_ulp [OF e] .
  then have "round_half_even (x / 2 powi ?e) \<le> k * 2 ^ nat (j - ?e)"
    by (rule round_half_even_le)
  then have "real_of_int (round_half_even (x / 2 powi ?e)) \<le> of_int (k * 2 ^ nat (j - ?e))"
    by linarith
  then have "real_of_int (round_half_even (x / 2 powi ?e)) * 2 powi ?e
      \<le> real_of_int (k * 2 ^ nat (j - ?e)) * 2 powi ?e"
    using pos by (simp only: mult_le_cancel_right_pos)
  also have "\<dots> = of_int k * 2 powi j"
    using dyadic_over_ulp [OF e, of k, symmetric] by simp
  finally show ?thesis using False by (simp add: round_double_def)
qed

lemma round_double_ge:
  assumes "of_int k * 2 powi j \<le> x" and "\<bar>x\<bar> < 2 powi (j + 53)" and "- 1074 \<le> j"
  shows "of_int k * 2 powi j \<le> round_double x"
proof (cases "x = 0")
  case True
  with assms(1) show ?thesis by (simp add: round_double_def)
next
  case False
  let ?e = "double_exponent x - 52"
  have e: "?e \<le> j" by (rule double_exponent_bound [OF False assms(2,3)])
  have pos: "(0::real) < 2 powi ?e" by simp
  have "of_int k * 2 powi j / 2 powi ?e \<le> x / 2 powi ?e"
    using assms(1) pos by (simp add: divide_right_mono)
  then have "of_int (k * 2 ^ nat (j - ?e)) \<le> x / 2 powi ?e"
    unfolding dyadic_over_ulp [OF e] .
  then have "k * 2 ^ nat (j - ?e) \<le> round_half_even (x / 2 powi ?e)"
    by (rule round_half_even_ge)
  then have "real_of_int (k * 2 ^ nat (j - ?e)) \<le> of_int (round_half_even (x / 2 powi ?e))"
    by linarith
  then have step: "real_of_int (k * 2 ^ nat (j - ?e)) * 2 powi ?e
      \<le> real_of_int (round_half_even (x / 2 powi ?e)) * 2 powi ?e"
    using pos by (simp only: mult_le_cancel_right_pos)
  have eq: "real_of_int (k * 2 ^ nat (j - ?e)) * 2 powi ?e = of_int k * 2 powi j"
    using dyadic_over_ulp [OF e, of k, symmetric] by simp
  from step have "of_int k * 2 powi j
      \<le> real_of_int (round_half_even (x / 2 powi ?e)) * 2 powi ?e"
    unfolding eq .
  then show ?thesis using False by (simp add: round_double_def)
qed

text \<open>A number with a significand of at most 53 bits is a double: rounding leaves it.\<close>

lemma round_double_dyadic:
  assumes "\<bar>of_int k * 2 powi j\<bar> < (2::real) powi (j + 53)" and "- 1074 \<le> j"
  shows "round_double (of_int k * 2 powi j) = of_int k * 2 powi j"
  using round_double_le [OF order_refl assms] round_double_ge [OF order_refl assms] by simp

lemma round_double_int:
  assumes "\<bar>k\<bar> < 2 ^ 53"
  shows "round_double (of_int k) = of_int k"
proof -
  have "\<bar>real_of_int k\<bar> < 2 ^ 53"
    using assms by (metis of_int_abs of_int_less_numeral_power_cancel_iff)
  then show ?thesis using round_double_dyadic [of k 0] by simp
qed

lemma round_double_simple [simp]:
  "round_double 0 = 0" "round_double 1 = 1" "round_double (1 / 2) = 1 / 2"
  "round_double 100 = 100"
proof -
  show "round_double 0 = 0" by (simp add: round_double_def)
  show "round_double 1 = 1" using round_double_int [of 1] by simp
  show "round_double 100 = 100" using round_double_int [of 100] by simp
  show "round_double (1 / 2) = 1 / 2"
    using round_double_dyadic [of 1 "- 1"] by (simp add: power_int_def)
qed




section \<open>Loops that fill a matrix\<close>

lemma foldl_nested_product:
  "foldl (\<lambda>s x. foldl (\<lambda>s y. f s (x, y)) s ys) s xs = foldl f s (List.product xs ys)"
proof (induction xs arbitrary: s)
  case Nil
  show ?case by simp
next
  case (Cons x xs)
  have "foldl f s (map (Pair x) ys) = foldl (\<lambda>s y. f s (x, y)) s ys"
    by (simp add: foldl_map)
  with Cons show ?case by simp
qed

lemma foldl_fun_upd_miss:
  "a \<notin> key ` set xs \<Longrightarrow> foldl (\<lambda>m x. m(key x := val x)) m xs a = m a"
  by (induction xs arbitrary: m) auto

lemma foldl_fun_upd_hit:
  "inj_on key (set xs) \<Longrightarrow> x \<in> set xs \<Longrightarrow>
     foldl (\<lambda>m x. m(key x := val x)) m xs (key x) = val x"
proof (induction xs arbitrary: m)
  case Nil
  then show ?case by simp
next
  case (Cons y ys)
  show ?case
  proof (cases "x \<in> set ys")
    case True
    have "inj_on key (set ys)" using Cons.prems(1) by (simp add: inj_on_def)
    from Cons.IH [OF this True] show ?thesis by simp
  next
    case False
    then have xy: "x = y" using Cons.prems(2) by simp
    have "key y \<notin> key ` set ys"
    proof
      assume "key y \<in> key ` set ys"
      then obtain z where z: "z \<in> set ys" "key z = key y" by auto
      then have "z = y" using Cons.prems(1) by (auto simp: inj_on_def)
      with z False xy show False by simp
    qed
    from foldl_fun_upd_miss [OF this, of val "m(key y := val y)"]
    have "foldl (\<lambda>m x. m(key x := val x)) (m(key y := val y)) ys (key y) = val y"
      by simp
    then show ?thesis unfolding xy by (simp only: foldl_Cons)
  qed
qed


lemma inj_on_stride:
  "inj_on (\<lambda>(i, j). i * w + j) (A \<times> {0..<w::nat})"
proof (rule inj_onI, clarsimp)
  fix a b c d
  assume "b < w" "d < w" "a * w + b = c * w + d"
  then have "(a * w + b) div w = (c * w + d) div w" "(a * w + b) mod w = (c * w + d) mod w"
    by simp_all
  with \<open>b < w\<close> \<open>d < w\<close> show "a = c \<and> b = d" by simp
qed




lemma foldl_nested_product4:
  "foldl (\<lambda>s i. foldl (\<lambda>s j. foldl (\<lambda>s k. foldl (\<lambda>s l. f s (i, j, k, l)) s ls) s ks) s js) s is
     = foldl f s (List.product is (List.product js (List.product ks ls)))"
proof -
  have "foldl f s (List.product is (List.product js (List.product ks ls)))
      = foldl (\<lambda>s i. foldl (\<lambda>s jkl. f s (i, jkl)) s (List.product js (List.product ks ls))) s is"
    by (rule foldl_nested_product [symmetric])
  also have "\<dots> = foldl (\<lambda>s i. foldl (\<lambda>s j. foldl (\<lambda>s kl. f s (i, j, kl)) s
      (List.product ks ls)) s js) s is"
    by (simp only: foldl_nested_product [where f = "\<lambda>s jkl. f s (i, jkl)" for i, symmetric])
  also have "\<dots> = foldl (\<lambda>s i. foldl (\<lambda>s j. foldl (\<lambda>s k. foldl (\<lambda>s l. f s (i, j, k, l)) s ls)
      s ks) s js) s is"
    by (simp only: foldl_nested_product [where f = "\<lambda>s kl. f s (i, j, kl)" for i j, symmetric])
  finally show ?thesis by simp
qed

lemma inj_on_kronecker_key:
  "inj_on (\<lambda>(i, j, k, l). (i * h + k, j * w + l)) (A \<times> B \<times> {0..<h::nat} \<times> {0..<w::nat})"
proof (rule inj_onI, clarsimp)
  fix i j k l i' j' k' l'
  assume k: "k < h" "k' < h" and l: "l < w" "l' < w"
    and r: "i * h + k = i' * h + k'" and c: "j * w + l = j' * w + l'"
  from r have "(i * h + k) div h = (i' * h + k') div h" "(i * h + k) mod h = (i' * h + k') mod h"
    by simp_all
  with k have 1: "i = i' \<and> k = k'" by simp
  from c have "(j * w + l) div w = (j' * w + l') div w" "(j * w + l) mod w = (j' * w + l') mod w"
    by simp_all
  with l have 2: "j = j' \<and> l = l'" by simp
  from 1 2 show "i = i' \<and> j = j' \<and> k = k' \<and> l = l'" by simp
qed

lemma KroneckerProduct_4_16_flat:
  "KroneckerProduct_4_16 uninit mat =
     foldl (\<lambda>m x. m((\<lambda>(i, j, k, l). (i * 4 + k, j * 16 + l)) x
                       := (\<lambda>(i, j, k, l). round_double (mat (i, j) * mat (k, l))) x)) uninit
       (List.product [0..<4] (List.product [0..<16] (List.product [0..<4] [0..<16])))"
  unfolding KroneckerProduct_4_16_def
  by (simp only: foldl_nested_product4 [where f = "\<lambda>m x. m((\<lambda>(i, j, k, l). (i * 4 + k, j * 16 + l)) x
                       := (\<lambda>(i, j, k, l). round_double (mat (i, j) * mat (k, l))) x)", symmetric] split_conv)

lemma KroneckerProduct_4_16_entry:
  assumes "i < 4" and "j < 16" and "k < 4" and "l < 16"
  shows "KroneckerProduct_4_16 uninit mat (i * 4 + k, j * 16 + l)
           = round_double (mat (i, j) * mat (k, l))"
proof -
  have inj: "inj_on (\<lambda>(i, j, k, l). (i * 4 + k, j * 16 + l))
      (set (List.product [0..<4] (List.product [0..<16] (List.product [0..<4] [0..<16::nat]))))"
    using inj_on_kronecker_key [of 4 16 "{0..<4}" "{0..<16}"] by simp
  have mem: "(i, j, k, l) \<in>
      set (List.product [0..<4] (List.product [0..<16] (List.product [0..<4] [0..<16])))"
    using assms by simp
  from foldl_fun_upd_hit [OF inj mem, of "\<lambda>(i, j, k, l). round_double (mat (i, j) * mat (k, l))" uninit]
  show ?thesis unfolding KroneckerProduct_4_16_flat by simp
qed

lemma KroneckerProduct_4_4_flat:
  "KroneckerProduct_4_4 uninit mat =
     foldl (\<lambda>m x. m((\<lambda>(i, j, k, l). (i * 4 + k, j * 4 + l)) x
                       := (\<lambda>(i, j, k, l). round_double (mat (i, j) * mat (k, l))) x)) uninit
       (List.product [0..<4] (List.product [0..<4] (List.product [0..<4] [0..<4])))"
  unfolding KroneckerProduct_4_4_def
  by (simp only: foldl_nested_product4 [where f = "\<lambda>m x. m((\<lambda>(i, j, k, l). (i * 4 + k, j * 4 + l)) x
                       := (\<lambda>(i, j, k, l). round_double (mat (i, j) * mat (k, l))) x)", symmetric] split_conv)

lemma KroneckerProduct_4_4_entry:
  assumes "i < 4" and "j < 4" and "k < 4" and "l < 4"
  shows "KroneckerProduct_4_4 uninit mat (i * 4 + k, j * 4 + l)
           = round_double (mat (i, j) * mat (k, l))"
proof -
  have inj: "inj_on (\<lambda>(i, j, k, l). (i * 4 + k, j * 4 + l))
      (set (List.product [0..<4] (List.product [0..<4] (List.product [0..<4] [0..<4::nat]))))"
    using inj_on_kronecker_key [of 4 4 "{0..<4}" "{0..<4}"] by simp
  have mem: "(i, j, k, l) \<in>
      set (List.product [0..<4] (List.product [0..<4] (List.product [0..<4] [0..<4])))"
    using assms by simp
  from foldl_fun_upd_hit [OF inj mem, of "\<lambda>(i, j, k, l). round_double (mat (i, j) * mat (k, l))" uninit]
  show ?thesis unfolding KroneckerProduct_4_4_flat by simp
qed

section \<open>What TwoParentCounts computes\<close>

lemma ZeroMatrix16_16_4d_inner_snd:
  "snd (ZeroMatrix16_16_4d_inner i j mat) (a, b, k) =
     (if i \<le> a \<and> a < kGenotypeCount \<and> b = j then 0 else mat (a, b, k))"
proof (induction i j mat rule: ZeroMatrix16_16_4d_inner.induct)
  case (1 i j mat)
  show ?case
  proof (cases "i < kGenotypeCount")
    case True
    with 1 show ?thesis
      by (subst ZeroMatrix16_16_4d_inner.simps)
        (auto simp: assign_cell_def RowVector4d_Zero_def)
  next
    case False
    then show ?thesis by (subst ZeroMatrix16_16_4d_inner.simps) simp
  qed
qed

lemma ZeroMatrix16_16_4d_entry:
  "ZeroMatrix16_16_4d uninit (a, b, k) =
     (if a < kGenotypeCount \<and> b = 0 then 0 else uninit (a, b, k))"
proof -
  obtain i' mat' where r: "ZeroMatrix16_16_4d_inner 0 0 uninit = (i', mat')"
    by (cases "ZeroMatrix16_16_4d_inner 0 0 uninit")
  have i': "i' = kGenotypeCount"
    using ZeroMatrix16_16_4d_inner_fst [of 0 0 uninit] r by simp
  have mat': "mat' (a, b, k) = (if a < kGenotypeCount \<and> b = 0 then 0 else uninit (a, b, k))"
    using ZeroMatrix16_16_4d_inner_snd [of 0 0 uninit a b k] r by simp
  have "ZeroMatrix16_16_4d uninit = ZeroMatrix16_16_4d_outer (i' + 1) mat'"
    unfolding ZeroMatrix16_16_4d_def
    by (subst ZeroMatrix16_16_4d_outer.simps) (simp add: r kGenotypeCount_def)
  also have "\<dots> = mat'"
    by (subst ZeroMatrix16_16_4d_outer.simps) (simp add: i')
  finally show ?thesis using mat' by simp
qed

lemma foldl_additive:
  assumes "\<And>m x. f m x c = m c + d x"
  shows "foldl f m xs c = m c + sum_list (map d xs)"
  using assms by (induction xs arbitrary: m) (simp_all add: add.assoc)

lemma sum_list_indicator_upt:
  "sum_list (map (\<lambda>x. if P x \<and> x = a then (1::real) else 0) [0..<n]) = (if a < n \<and> P a then 1 else 0)"
  by (induction n) (auto simp: less_Suc_eq)

lemma row_delta_eq:
  "row_delta g n (i, j, k) = (if j < kGenotypeCount \<and> i = g \<and> k = n then 1 else 0)"
proof -
  have "row_delta g n (i, j, k) =
      sum_list (map (\<lambda>x. if (i = g \<and> k = n) \<and> x = j then (1::real) else 0) [0..<kGenotypeCount])"
    unfolding row_delta_def by (rule arg_cong [where f = sum_list]) auto
  then show ?thesis
    using sum_list_indicator_upt [of "\<lambda>x. i = g \<and> k = n" j kGenotypeCount] by simp
qed

lemma col_delta_eq:
  "col_delta g n (i, j, k) = (if i < kGenotypeCount \<and> j = g \<and> k = n then 1 else 0)"
proof -
  have "col_delta g n (i, j, k) =
      sum_list (map (\<lambda>x. if (j = g \<and> k = n) \<and> x = i then (1::real) else 0) [0..<kGenotypeCount])"
    unfolding col_delta_def by (rule arg_cong [where f = sum_list]) auto
  then show ?thesis
    using sum_list_indicator_upt [of "\<lambda>x. j = g \<and> k = n" i kGenotypeCount] by simp
qed

lemma row_loop:
  "foldl (\<lambda>genotype_count i. increment genotype_count (g, i, n)) m [0..<kGenotypeCount] c
     = m c + row_delta g n c"
  unfolding row_delta_def by (rule foldl_additive) (simp add: increment_def)

lemma col_loop:
  "foldl (\<lambda>genotype_count i. increment genotype_count (i, g, n)) m [0..<kGenotypeCount] c
     = m c + col_delta g n c"
  unfolding col_delta_def by (rule foldl_additive) (simp add: increment_def)

lemma TwoParentCounts_sum:
  "TwoParentCounts uninit c = ZeroMatrix16_16_4d uninit c
     + sum_list (map (\<lambda>n. sum_list (map (\<lambda>g. sum_list (map (\<lambda>a. allele_delta n g a c) [0..<2]))
         [0..<kGenotypeCount])) [0..<kNucleotideCount])"
  unfolding TwoParentCounts_def
  apply (rule foldl_additive)
  apply (rule foldl_additive)
  apply (rule foldl_additive)
  apply (simp add: allele_delta_def Let_def row_loop col_loop)
  done


lemma sum_list_addf_real:
  "sum_list (map (\<lambda>x. f x + g x) xs) = sum_list (map f xs) + (sum_list (map g xs) :: real)"
  by (induction xs) simp_all

lemma sum_list_delta_upt:
  "sum_list (map (\<lambda>x. if x = a then v else (0::real)) [0..<n]) = (if a < n then v else 0)"
  by (induction n) (auto simp: less_Suc_eq)

lemma GenotypeNumIndex_row:
  assumes "x < 16"
  shows "GenotypeNumIndex ! x = [kGenotypeNumIndex x 0, kGenotypeNumIndex x 1]"
  using nat_less_16_cases [OF assms]
  by (auto simp: kGenotypeNumIndex_def GenotypeNumIndex_def)

lemma allele_matches_eq:
  assumes "x < 16" and "k < 4"
  shows "allele_matches x k = real (count_list (GenotypeNumIndex ! x) (int k))"
proof -
  let ?S = "sum_list (map (\<lambda>a. if kGenotypeNumIndex x a = int k then (1::real) else 0) [0..<2])"
  have inner: "sum_list (map (\<lambda>a. if kGenotypeNumIndex g a = int n \<and> x = g \<and> k = n
                                     then (1::real) else 0) [0..<2])
      = (if g = x then (if n = k then ?S else 0) else 0)" for g n
    by (cases "g = x"; cases "n = k") auto
  have "allele_matches x k =
      sum_list (map (\<lambda>n. sum_list (map (\<lambda>g. if g = x then (if n = k then ?S else 0) else 0)
        [0..<kGenotypeCount])) [0..<kNucleotideCount])"
    unfolding allele_matches_def inner ..
  also have "\<dots> = sum_list (map (\<lambda>n. if n = k then ?S else 0) [0..<kNucleotideCount])"
    using assms(1) by (simp add: sum_list_delta_upt kGenotypeCount_def)
  also have "\<dots> = ?S"
    using assms(2) by (simp add: sum_list_delta_upt kNucleotideCount_def)
  also have "?S = (if kGenotypeNumIndex x 0 = int k then 1 else 0)
      + (if kGenotypeNumIndex x 1 = int k then 1 else 0)"
  proof -
    have "[0..<2] = [0, Suc 0]" by (simp add: upt_rec numeral_2_eq_2)
    then show ?thesis by simp
  qed
  also have "\<dots> = real (count_list (GenotypeNumIndex ! x) (int k))"
    unfolding GenotypeNumIndex_row [OF assms(1)] by simp
  finally show ?thesis .
qed

lemma TwoParentCounts_entry:
  assumes "i < kGenotypeCount" and "j < kGenotypeCount" and "k < kNucleotideCount"
  shows "TwoParentCounts uninit (i, j, k) =
           (if j = 0 then 0 else uninit (i, j, k)) + real (allele_occurrences i j k)"
proof -
  have d: "allele_delta n g a (i, j, k) =
      (if kGenotypeNumIndex g a = int n \<and> i = g \<and> k = n then 1 else 0)
      + (if kGenotypeNumIndex g a = int n \<and> j = g \<and> k = n then 1 else 0)" for n g a
    using assms by (simp add: allele_delta_def row_delta_eq col_delta_eq)
  have "TwoParentCounts uninit (i, j, k) = ZeroMatrix16_16_4d uninit (i, j, k)
      + (allele_matches i k + allele_matches j k)"
    unfolding TwoParentCounts_sum d allele_matches_def
    by (simp only: sum_list_addf_real)
  moreover have "allele_matches i k = real (count_list (GenotypeNumIndex ! i) (int k))"
    using assms by (intro allele_matches_eq) (simp_all add: kGenotypeCount_def kNucleotideCount_def)
  moreover have "allele_matches j k = real (count_list (GenotypeNumIndex ! j) (int k))"
    using assms by (intro allele_matches_eq) (simp_all add: kGenotypeCount_def kNucleotideCount_def)
  moreover have "allele_occurrences i j k
      = count_list (GenotypeNumIndex ! i) (int k) + count_list (GenotypeNumIndex ! j) (int k)"
    by (simp add: allele_occurrences_def)
  ultimately show ?thesis
    using assms(1) by (simp add: ZeroMatrix16_16_4d_entry)
qed

section \<open>Binning lemmas\<close>

















section \<open>Sums over four entries\<close>

lemma sum_lessThan_4:
  "(\<Sum>i<(4::nat). f i) = f 0 + f 1 + f 2 + (f 3 :: 'a :: comm_monoid_add)"
proof -
  have "{..<4::nat} = {0, 1, 2, 3}" by auto
  then show ?thesis by (simp add: add.assoc)
qed

lemma foldl_add_upt_4:
  "foldl (\<lambda>acc i. acc + g i) (z::real) [0..<4] = z + g 0 + g 1 + g 2 + g 3"
proof -
  have "[0..<4] = [0, 1, 2, 3::nat]" by code_simp
  then show ?thesis by simp
qed

section \<open>The enumeration, its unique rows and the trio index\<close>

lemma foldl_list_update_length:
  "length (foldl (\<lambda>xs x. xs[key x := val x]) xs ks) = length xs"
  by (induction ks arbitrary: xs) simp_all

lemma foldl_list_update_miss:
  "p \<notin> key ` set ks \<Longrightarrow> foldl (\<lambda>xs x. xs[key x := val x]) xs ks ! p = xs ! p"
  by (induction ks arbitrary: xs) auto

lemma foldl_list_update_hit:
  "inj_on key (set ks) \<Longrightarrow> x \<in> set ks \<Longrightarrow> key x < length xs \<Longrightarrow>
     foldl (\<lambda>xs x. xs[key x := val x]) xs ks ! key x = val x"
proof (induction ks arbitrary: xs)
  case Nil
  then show ?case by simp
next
  case (Cons y ys)
  show ?case
  proof (cases "x \<in> set ys")
    case True
    have "inj_on key (set ys)" using Cons.prems(1) by (simp add: inj_on_def)
    from Cons.IH [OF this True, of "xs[key y := val y]"] Cons.prems(3)
    show ?thesis by simp
  next
    case False
    then have xy: "x = y" using Cons.prems(2) by simp
    have "key y \<notin> key ` set ys"
    proof
      assume "key y \<in> key ` set ys"
      then obtain z where z: "z \<in> set ys" "key z = key y" by auto
      then have "z = y" using Cons.prems(1) by (auto simp: inj_on_def)
      with z False xy show False by simp
    qed
    from foldl_list_update_miss [OF this, of val "xs[key y := val y]"] Cons.prems(3)
    show ?thesis unfolding xy by simp
  qed
qed

lemma Enumerate_fill_flat:
  "Enumerate_fill counts' recursive =
     foldl (\<lambda>xs x. xs[(\<lambda>(j, i). j * 4 + i) x
                        := (\<lambda>(j, i). add_rows (identity_mat ! i) (recursive ! j)) x]) counts'
       (List.product [0..<length recursive] [0..<4])"
  unfolding Enumerate_fill_def kNucleotideCount_def
  by (simp only: foldl_nested_product [where f = "\<lambda>xs x. xs[(\<lambda>(j, i). j * 4 + i) x
      := (\<lambda>(j, i). add_rows (identity_mat ! i) (recursive ! j)) x]", symmetric] split_conv
      add.commute [of _ "_ * 4"])

lemma Enumerate_fill_eq:
  assumes "length counts' = 4 * length recursive"
  shows "Enumerate_fill counts' recursive = expand_rows recursive"
proof (rule nth_equalityI)
  show len: "length (Enumerate_fill counts' recursive) = length (expand_rows recursive)"
    unfolding Enumerate_fill_flat foldl_list_update_length expand_rows_def using assms by simp
  fix p
  assume "p < length (Enumerate_fill counts' recursive)"
  then have p: "p < 4 * length recursive"
    using len by (simp add: expand_rows_def)
  have inj: "inj_on (\<lambda>(j, i). j * 4 + i) (set (List.product [0..<length recursive] [0..<4::nat]))"
    using inj_on_stride [of 4 "{0..<length recursive}"] by simp
  have mem: "(p div 4, p mod 4) \<in> set (List.product [0..<length recursive] [0..<4])"
    using p by auto
  have key: "(\<lambda>(j, i). j * 4 + i) (p div 4, p mod 4) = p" by simp
  from foldl_list_update_hit [OF inj mem, of counts'
      "\<lambda>(j, i). add_rows (identity_mat ! i) (recursive ! j)"] p assms
  have "Enumerate_fill counts' recursive ! p
      = add_rows (identity_mat ! (p mod 4)) (recursive ! (p div 4))"
    unfolding Enumerate_fill_flat key by simp
  then show "Enumerate_fill counts' recursive ! p = expand_rows recursive ! p"
    using p by (simp add: expand_rows_def)
qed

lemma length_enum_rows: "length (enum_rows n) = 4 ^ Suc n"
  by (induction n) (simp_all add: identity_mat_def expand_rows_def)

lemma pow_rows_int: "pow_rows (int k) = 4 ^ k"
  by (simp add: pow_rows_def)

lemma EnumerateNucleotideCounts_eq:
  assumes "n < 15"
  shows "EnumerateNucleotideCounts uninit (int (Suc n)) = Some (Inr (enum_rows n))"
  using assms
proof (induction n)
  case 0
  show ?case by (subst EnumerateNucleotideCounts.simps) simp
next
  case (Suc n)
  have "(4::int) ^ Suc (Suc n) \<le> 4 ^ 15"
    using Suc.prems by (intro power_increasing) simp_all
  moreover have "(4::int) ^ 15 < 2 ^ 31" by simp
  ultimately have small: "\<not> 2 ^ 31 \<le> pow_rows (int (Suc (Suc n)))"
    unfolding pow_rows_int by (simp only: not_le)
  have "nat ((4::int) ^ Suc (Suc n)) = 4 ^ Suc (Suc n)"
    by (metis nat_int of_nat_numeral of_nat_power)
  then have rows: "nat (pow_rows (int (Suc (Suc n)))) = 4 * length (enum_rows n)"
    unfolding pow_rows_int length_enum_rows by simp
  have prev: "EnumerateNucleotideCounts uninit (int (Suc (Suc n)) - 1) = Some (Inr (enum_rows n))"
    using Suc.IH Suc.prems by simp
  have ne: "int (Suc (Suc n)) \<noteq> 1" by simp
  have fill: "Enumerate_fill
      (map (uninit (int (Suc (Suc n)))) [0..<nat (pow_rows (int (Suc (Suc n))))]) (enum_rows n)
      = expand_rows (enum_rows n)"
    by (rule Enumerate_fill_eq) (simp only: length_map length_upt rows diff_zero)
  show ?case
    by (subst EnumerateNucleotideCounts.simps)
      (simp only: ne small prev fill if_False bind.bind_lunit sum.case enum_rows.simps)
qed

lemma EnumerateNucleotideCounts_overflow:
  assumes "16 \<le> coverage"
  shows "EnumerateNucleotideCounts uninit coverage = Some (Inl Rows_overflow)"
proof -
  have "(4::int) ^ 16 \<le> 4 ^ nat coverage"
    using assms by (intro power_increasing) simp_all
  then have "2 ^ 31 \<le> pow_rows coverage"
    using assms by (simp add: pow_rows_def)
  then show ?thesis
    using assms by (subst EnumerateNucleotideCounts.simps) simp
qed

lemma length_4_cases:
  assumes "length l = 4"
  obtains a b c d where "l = [a, b, c, d]"
proof -
  from assms obtain a l1 where 1: "l = a # l1" "length l1 = 3"
    by (cases l) simp_all
  then obtain b l2 where 2: "l1 = b # l2" "length l2 = 2" by (cases l1) simp_all
  then obtain c l3 where 3: "l2 = c # l3" "length l3 = 1" by (cases l2) simp_all
  then obtain d where 4: "l3 = [d]" by (cases l3) simp_all
  from 1 2 3 4 that show ?thesis by simp
qed

lemma add_rows_identity:
  "add_rows (identity_mat ! 0) [a, b, c, d] = [a + 1, b, c, d]"
  "add_rows (identity_mat ! 1) [a, b, c, d] = [a, b + 1, c, d]"
  "add_rows (identity_mat ! Suc 0) [a, b, c, d] = [a, b + 1, c, d]"
  "add_rows (identity_mat ! 2) [a, b, c, d] = [a, b, c + 1, d]"
  "add_rows (identity_mat ! 3) [a, b, c, d] = [a, b, c, d + 1]"
  by (simp_all add: add_rows_def identity_mat_def)

lemma set_expand_rows:
  "set (expand_rows rs) = {add_rows (identity_mat ! i) r | i r. i < 4 \<and> r \<in> set rs}"
proof (intro equalityI subsetI)
  fix x
  assume "x \<in> set (expand_rows rs)"
  then obtain p where p: "p < 4 * length rs"
    and x: "x = add_rows (identity_mat ! (p mod 4)) (rs ! (p div 4))"
    by (auto simp: expand_rows_def)
  from p have "p mod 4 < 4" and "rs ! (p div 4) \<in> set rs" by simp_all
  with x show "x \<in> {add_rows (identity_mat ! i) r | i r. i < 4 \<and> r \<in> set rs}" by blast
next
  fix x
  assume "x \<in> {add_rows (identity_mat ! i) r | i r. i < 4 \<and> r \<in> set rs}"
  then obtain i r where i: "i < 4" and r: "r \<in> set rs" and x: "x = add_rows (identity_mat ! i) r"
    by blast
  from r obtain q where q: "q < length rs" "rs ! q = r" by (auto simp: in_set_conv_nth)
  let ?p = "q * 4 + i"
  have "?p < 4 * length rs" using i q(1) by simp
  moreover have "add_rows (identity_mat ! (?p mod 4)) (rs ! (?p div 4)) = x"
    using i q(2) x by simp
  ultimately show "x \<in> set (expand_rows rs)"
    unfolding expand_rows_def by (metis (no_types, lifting) atLeast0LessThan imageI image_set lessThan_iff set_upt)
qed

lemma compositions_0: "compositions 0 = {[0, 0, 0, 0]}"
proof (intro equalityI subsetI)
  fix l
  assume "l \<in> compositions 0"
  then have len: "length l = 4" and nn: "\<forall>x\<in>set l. 0 \<le> x" and s: "sum_list l = 0"
    by (simp_all add: compositions_def)
  from len obtain a b c d where l: "l = [a, b, c, d]" by (rule length_4_cases)
  with nn s have "a = 0 \<and> b = 0 \<and> c = 0 \<and> d = 0" by simp
  with l show "l \<in> {[0, 0, 0, 0]}" by simp
next
  fix l :: "int list"
  assume "l \<in> {[0, 0, 0, 0]}"
  then show "l \<in> compositions 0" by (simp add: compositions_def)
qed

lemma compositions_Suc:
  "compositions (Suc m) = {add_rows (identity_mat ! i) r | i r. i < 4 \<and> r \<in> compositions m}"
proof (intro equalityI subsetI)
  fix l
  assume "l \<in> compositions (Suc m)"
  then have len: "length l = 4" and nn: "\<forall>x\<in>set l. 0 \<le> x" and s: "sum_list l = int (Suc m)"
    by (simp_all add: compositions_def)
  from len obtain a b c d where l: "l = [a, b, c, d]" by (rule length_4_cases)
  from nn s l have pos: "1 \<le> a \<or> 1 \<le> b \<or> 1 \<le> c \<or> 1 \<le> d" by auto
  from nn l have n4: "0 \<le> a" "0 \<le> b" "0 \<le> c" "0 \<le> d" by simp_all
  from s l have sum: "a + b + c + d = int m + 1" by simp
  from pos consider "1 \<le> a" | "1 \<le> b" | "1 \<le> c" | "1 \<le> d" by blast
  then show "l \<in> {add_rows (identity_mat ! i) r | i r. i < 4 \<and> r \<in> compositions m}"
  proof cases
    case 1
    have "[a - 1, b, c, d] \<in> compositions m"
      using 1 n4 sum by (simp add: compositions_def)
    moreover have "l = add_rows (identity_mat ! 0) [a - 1, b, c, d]"
      by (simp add: add_rows_identity l)
    ultimately show ?thesis by (blast intro: zero_less_numeral)
  next
    case 2
    have "[a, b - 1, c, d] \<in> compositions m"
      using 2 n4 sum by (simp add: compositions_def)
    moreover have "l = add_rows (identity_mat ! 1) [a, b - 1, c, d]"
      by (simp add: add_rows_identity l)
    moreover have "(1::nat) < 4" by simp
    ultimately show ?thesis by blast
  next
    case 3
    have "[a, b, c - 1, d] \<in> compositions m"
      using 3 n4 sum by (simp add: compositions_def)
    moreover have "l = add_rows (identity_mat ! 2) [a, b, c - 1, d]"
      by (simp add: add_rows_identity l)
    moreover have "(2::nat) < 4" by simp
    ultimately show ?thesis by blast
  next
    case 4
    have "[a, b, c, d - 1] \<in> compositions m"
      using 4 n4 sum by (simp add: compositions_def)
    moreover have "l = add_rows (identity_mat ! 3) [a, b, c, d - 1]"
      by (simp add: add_rows_identity l)
    moreover have "(3::nat) < 4" by simp
    ultimately show ?thesis by blast
  qed
next
  fix l
  assume "l \<in> {add_rows (identity_mat ! i) r | i r. i < 4 \<and> r \<in> compositions m}"
  then obtain i r where i: "i < 4" and r: "r \<in> compositions m"
    and l: "l = add_rows (identity_mat ! i) r" by blast
  from r have len: "length r = 4" and nn: "\<forall>x\<in>set r. 0 \<le> x" and s: "sum_list r = int m"
    by (simp_all add: compositions_def)
  from len obtain a b c d where r4: "r = [a, b, c, d]" by (rule length_4_cases)
  from nat_less_4_cases [OF i] nn s show "l \<in> compositions (Suc m)"
    unfolding l r4 by (auto simp: add_rows_identity compositions_def)
qed

lemma set_identity_mat: "set identity_mat = compositions (Suc 0)"
proof -
  have "{add_rows (identity_mat ! i) r | i r. i < 4 \<and> r \<in> {[0, 0, 0, 0]}} = set identity_mat"
  proof (intro equalityI subsetI)
    fix x
    assume "x \<in> {add_rows (identity_mat ! i) r | i r. i < 4 \<and> r \<in> {[0, 0, 0, 0]}}"
    then obtain i where i: "i < 4" and x: "x = add_rows (identity_mat ! i) [0, 0, 0, 0]" by blast
    from nat_less_4_cases [OF i] show "x \<in> set identity_mat"
      unfolding x by (auto simp: add_rows_def identity_mat_def)
  next
    fix x
    assume "x \<in> set identity_mat"
    then consider "x = add_rows (identity_mat ! 0) [0, 0, 0, 0]"
      | "x = add_rows (identity_mat ! 1) [0, 0, 0, 0]"
      | "x = add_rows (identity_mat ! 2) [0, 0, 0, 0]"
      | "x = add_rows (identity_mat ! 3) [0, 0, 0, 0]"
      unfolding add_rows_identity by (auto simp: identity_mat_def)
    then show "x \<in> {add_rows (identity_mat ! i) r | i r. i < 4 \<and> r \<in> {[0, 0, 0, 0]}}"
    proof cases
      case 1 then show ?thesis by (blast intro: zero_less_numeral)
    next
      case 2 moreover have "(1::nat) < 4" by simp
      ultimately show ?thesis by blast
    next
      case 3 moreover have "(2::nat) < 4" by simp
      ultimately show ?thesis by blast
    next
      case 4 moreover have "(3::nat) < 4" by simp
      ultimately show ?thesis by blast
    qed
  qed
  then show ?thesis unfolding compositions_Suc compositions_0 by simp
qed

lemma set_enum_rows: "set (enum_rows n) = compositions (Suc n)"
proof (induction n)
  case 0
  show ?case by (simp add: set_identity_mat)
next
  case (Suc n)
  show ?case
    unfolding enum_rows.simps set_expand_rows Suc.IH compositions_Suc [of "Suc n"] ..
qed

lemma compositions_image:
  "compositions m = map int ` {l::nat list. length l = 4 \<and> sum_list l = m}"
proof (intro equalityI subsetI)
  fix l
  assume "l \<in> compositions m"
  then have len: "length l = 4" and nn: "\<forall>x\<in>set l. 0 \<le> x" and s: "sum_list l = int m"
    by (simp_all add: compositions_def)
  from len obtain a b c d where l: "l = [a, b, c, d]" by (rule length_4_cases)
  let ?n = "[nat a, nat b, nat c, nat d]"
  have "map int ?n = l" using nn l by simp
  moreover have "length ?n = 4" by simp
  moreover have "sum_list ?n = m" using nn s l by simp linarith
  ultimately show "l \<in> map int ` {l::nat list. length l = 4 \<and> sum_list l = m}"
    by blast
next
  fix l
  assume "l \<in> map int ` {l::nat list. length l = 4 \<and> sum_list l = m}"
  then obtain k :: "nat list" where k: "length k = 4" "sum_list k = m" and l: "l = map int k"
    by blast
  from k(1) obtain a b c d where "k = [a, b, c, d]" by (rule length_4_cases)
  with k(2) l show "l \<in> compositions m" by (auto simp: compositions_def)
qed

lemma card_compositions: "card (compositions m) = (m + 3) choose 3"
proof -
  have inj: "inj_on (map int) {l::nat list. length l = 4 \<and> sum_list l = m}"
    by (intro inj_onI) (simp add: inj_on_def list.inj_map_strong)
  have "card (compositions m) = card {l::nat list. length l = 4 \<and> sum_list l = m}"
    unfolding compositions_image by (rule card_image [OF inj])
  also have "\<dots> = (m + 4 - 1) choose m" by (rule card_length_sum_list)
  also have "\<dots> = (m + 3) choose 3"
    using binomial_symmetric [of m "m + 3"] by (simp add: add.commute)
  finally show ?thesis .
qed

lemma compositions_entry_bound:
  assumes "l \<in> compositions m" and "x \<in> set l"
  shows "0 \<le> x \<and> x \<le> int m"
proof -
  from assms(1) have len: "length l = 4" and nn: "\<forall>x\<in>set l. 0 \<le> x"
    and s: "sum_list l = int m" by (simp_all add: compositions_def)
  from len obtain a b c d where l: "l = [a, b, c, d]" by (rule length_4_cases)
  from nn s assms(2) show ?thesis unfolding l by auto
qed

lemma foldl_or:
  "foldl (\<lambda>b x. if P x then True else b) b0 xs = (b0 \<or> (\<exists>x\<in>set xs. P x))"
  by (induction xs arbitrary: b0) auto

lemma foldl_nth_upt: "foldl (\<lambda>s i. f s (xs ! i)) s [0..<length xs] = foldl f s xs"
proof -
  have "foldl f s (map ((!) xs) [0..<length xs]) = foldl (\<lambda>s i. f s (xs ! i)) s [0..<length xs]"
    by (simp add: foldl_map)
  then show ?thesis by (simp add: map_nth)
qed

lemma to_ReadData_loop:
  assumes "length row = 4"
  shows "foldl (\<lambda>data j. data[j := word_of_int (row ! j)]) [0, 0, 0, 0] [0..<kNucleotideCount]
           = to_ReadData row"
proof -
  from assms obtain a b c d where row: "row = [a, b, c, d]" by (rule length_4_cases)
  have u: "[0..<4] = [0, Suc 0, Suc (Suc 0), Suc (Suc (Suc 0))]"
    by (simp add: upt_rec numeral_eq_Suc)
  show ?thesis
    unfolding kNucleotideCount_def u row to_ReadData_def by simp
qed

lemma GetUniqueReadDataVector_body_eq:
  assumes "length (mat ! i) = 4"
  shows "GetUniqueReadDataVector_body mat data_vec i = unique_step data_vec (mat ! i)"
  unfolding GetUniqueReadDataVector_body_def Let_def foldl_or to_ReadData_loop [OF assms]
    unique_step_def
  by simp

lemma GetUniqueReadDataVector_foldl:
  assumes "\<forall>row\<in>set mat. length row = 4"
  shows "GetUniqueReadDataVector mat = foldl unique_step [] mat"
proof -
  have "foldl (GetUniqueReadDataVector_body mat) [] [0..<length mat]
      = foldl (\<lambda>data_vec i. unique_step data_vec (mat ! i)) [] [0..<length mat]"
    using assms by (intro foldl_cong) (simp_all add: GetUniqueReadDataVector_body_eq)
  then show ?thesis
    unfolding GetUniqueReadDataVector_def by (simp only: foldl_nth_upt)
qed

lemma uint_to_ReadData:
  assumes "in_range d" and "k < 4"
  shows "uint (to_ReadData d ! k) = d ! k"
proof -
  from assms have "0 \<le> d ! k" "d ! k < 65536" by (simp_all add: in_range_def)
  moreover have "to_ReadData d ! k = word_of_int (d ! k)"
    using assms by (simp add: to_ReadData_def in_range_def)
  ultimately show ?thesis by (simp add: uint_word_of_int take_bit_int_eq_self)
qed

lemma match_iff_eq:
  assumes "in_range d" and "in_range row"
  shows "(uint (to_ReadData d ! 0) = row ! 0 \<and> uint (to_ReadData d ! 1) = row ! 1
            \<and> uint (to_ReadData d ! 2) = row ! 2 \<and> uint (to_ReadData d ! 3) = row ! 3)
         \<longleftrightarrow> d = row"
proof -
  from assms(1) obtain a b c e where d: "d = [a, b, c, e]"
    unfolding in_range_def by (metis length_4_cases)
  from assms(2) obtain a' b' c' e' where r: "row = [a', b', c', e']"
    unfolding in_range_def by (metis length_4_cases)
  have "uint (to_ReadData d ! k) = d ! k" if "k < 4" for k
    using uint_to_ReadData [OF assms(1) that] .
  from this [of 0] this [of 1] this [of 2] this [of 3] show ?thesis
    unfolding d r by simp
qed

lemma unique_step_to_ReadData:
  assumes "\<forall>d\<in>set ds. in_range d" and "in_range row"
  shows "unique_step (map to_ReadData ds) row = map to_ReadData (dedup_step ds row)"
proof -
  have "(\<exists>data\<in>set (map to_ReadData ds). uint (data ! 0) = row ! 0 \<and> uint (data ! 1) = row ! 1
            \<and> uint (data ! 2) = row ! 2 \<and> uint (data ! 3) = row ! 3) \<longleftrightarrow> row \<in> set ds"
    using assms match_iff_eq by auto
  then show ?thesis unfolding unique_step_def dedup_step_def by simp
qed

lemma foldl_unique_step:
  assumes "\<forall>d\<in>set ds. in_range d" and "\<forall>row\<in>set rows. in_range row"
  shows "foldl unique_step (map to_ReadData ds) rows = map to_ReadData (foldl dedup_step ds rows)"
  using assms
proof (induction rows arbitrary: ds)
  case Nil
  show ?case by simp
next
  case (Cons row rows)
  have "\<forall>d\<in>set (dedup_step ds row). in_range d"
    using Cons.prems by (auto simp: dedup_step_def)
  from Cons.IH [OF this] Cons.prems show ?case
    by (simp add: unique_step_to_ReadData)
qed

lemma foldl_dedup_step:
  "distinct ds \<Longrightarrow> distinct (foldl dedup_step ds rows)
     \<and> set (foldl dedup_step ds rows) = set ds \<union> set rows"
proof (induction rows arbitrary: ds)
  case Nil
  then show ?case by simp
next
  case (Cons row rows)
  have "distinct (dedup_step ds row)" using Cons.prems by (simp add: dedup_step_def)
  from Cons.IH [OF this] show ?case by (auto simp: dedup_step_def)
qed

lemma inj_on_to_ReadData: "inj_on to_ReadData {row. in_range row}"
proof (rule inj_onI)
  fix x y
  assume x: "x \<in> {row. in_range row}" and y: "y \<in> {row. in_range row}"
    and e: "to_ReadData x = to_ReadData y"
  from x y have rx: "in_range x" and ry: "in_range y" by simp_all
  have "uint (to_ReadData x ! k) = y ! k" if "k < 4" for k
    unfolding e using uint_to_ReadData [OF ry that] .
  then have "uint (to_ReadData x ! 0) = y ! 0 \<and> uint (to_ReadData x ! 1) = y ! 1
            \<and> uint (to_ReadData x ! 2) = y ! 2 \<and> uint (to_ReadData x ! 3) = y ! 3"
    by simp
  then show "x = y" using match_iff_eq [OF rx ry] by simp
qed

lemma GetUniqueReadDataVector_unique:
  assumes "\<forall>row\<in>set mat. in_range row"
  shows "GetUniqueReadDataVector mat = map to_ReadData (foldl dedup_step [] mat)"
    and "distinct (GetUniqueReadDataVector mat)"
    and "set (GetUniqueReadDataVector mat) = to_ReadData ` set mat"
    and "length (GetUniqueReadDataVector mat) = card (set mat)"
proof -
  have len: "\<forall>row\<in>set mat. length row = 4" using assms by (simp add: in_range_def)
  show eq: "GetUniqueReadDataVector mat = map to_ReadData (foldl dedup_step [] mat)"
    unfolding GetUniqueReadDataVector_foldl [OF len]
    using foldl_unique_step [of "[]" mat] assms by simp
  have d: "distinct (foldl dedup_step [] mat)" and s: "set (foldl dedup_step [] mat) = set mat"
    using foldl_dedup_step [of "[]" mat] by simp_all
  have inj: "inj_on to_ReadData (set (foldl dedup_step [] mat))"
    unfolding s using assms by (intro inj_on_subset [OF inj_on_to_ReadData]) auto
  show "distinct (GetUniqueReadDataVector mat)"
    unfolding eq using d inj by (simp add: distinct_map)
  show "set (GetUniqueReadDataVector mat) = to_ReadData ` set mat"
    unfolding eq using s by simp
  show "length (GetUniqueReadDataVector mat) = card (set mat)"
    unfolding eq using d s by (simp add: distinct_card [symmetric])
qed

lemma enum_rows_in_range:
  assumes "n < 15" and "row \<in> set (enum_rows n)"
  shows "in_range row"
proof -
  from assms(2) have c: "row \<in> compositions (Suc n)" by (simp add: set_enum_rows)
  then have "length row = 4" by (simp add: compositions_def)
  moreover have "0 \<le> x \<and> x < 65536" if "x \<in> set row" for x
    using compositions_entry_bound [OF c that] assms(1) by simp
  ultimately show ?thesis by (simp add: in_range_def)
qed







lemma length_unique_enum_rows:
  assumes "n < 15"
  shows "length (GetUniqueReadDataVector (enum_rows n)) = (Suc n + 3) choose 3"
proof -
  have r: "\<forall>row\<in>set (enum_rows n). in_range row"
    using enum_rows_in_range [OF assms] by blast
  show ?thesis
    unfolding GetUniqueReadDataVector_unique(4) [OF r] set_enum_rows card_compositions ..
qed










lemma unique_enum_rows_facts:
  assumes "n < 15"
  shows "distinct (GetUniqueReadDataVector (enum_rows n))"
    and "set (GetUniqueReadDataVector (enum_rows n)) = to_ReadData ` compositions (Suc n)"
    and "\<forall>data\<in>set (GetUniqueReadDataVector (enum_rows n)). length data = 4"
    and "set (map (map uint) (GetUniqueReadDataVector (enum_rows n))) = compositions (Suc n)"
proof -
  have r: "\<forall>row\<in>set (enum_rows n). in_range row"
    using enum_rows_in_range [OF assms] by blast
  show "distinct (GetUniqueReadDataVector (enum_rows n))"
    by (rule GetUniqueReadDataVector_unique(2) [OF r])
  show s: "set (GetUniqueReadDataVector (enum_rows n)) = to_ReadData ` compositions (Suc n)"
    unfolding GetUniqueReadDataVector_unique(3) [OF r] set_enum_rows ..
  show "\<forall>data\<in>set (GetUniqueReadDataVector (enum_rows n)). length data = 4"
    unfolding s by (auto simp: to_ReadData_def compositions_def)
  have inv: "map uint (to_ReadData row) = row" if "row \<in> compositions (Suc n)" for row
  proof -
    have ir: "in_range row" using that r by (simp add: set_enum_rows)
    then have len: "length row = 4" by (simp add: in_range_def)
    show ?thesis
    proof (rule nth_equalityI)
      show "length (map uint (to_ReadData row)) = length row" by (simp add: to_ReadData_def)
      fix k assume "k < length (map uint (to_ReadData row))"
      then have k: "k < 4" using len by (simp add: to_ReadData_def)
      then show "map uint (to_ReadData row) ! k = row ! k"
        using uint_to_ReadData [OF ir k] len by (simp add: to_ReadData_def)
    qed
  qed
  show "set (map (map uint) (GetUniqueReadDataVector (enum_rows n))) = compositions (Suc n)"
    unfolding set_map s image_image using inv by auto
qed





section \<open>Mutation flags and rate zero\<close>


lemma Mutate_eq:
  "Mutate sim genotype_idx is_germline parent_genotype_idx random =
     (int random,
      if int random \<noteq> genotype_idx
      then sim\<lparr>params' := (params' sim)\<lparr>has_mutation := True\<rparr>\<rparr> else sim)"
  by (simp add: Mutate_def RandomDiscreteChoice_def Let_def)

lemma site_mutated_eq:
  "site_mutated sim site \<longleftrightarrow>
     int (germline_draw site) \<noteq> site_child_genotype site
     \<or> int (child_somatic_draw site) \<noteq> int (germline_draw site)
     \<or> int (mother_somatic_draw site) \<noteq> int (parent_genotypes_draw site) mod int kGenotypeCount
     \<or> int (father_somatic_draw site) \<noteq> int (parent_genotypes_draw site) div int kGenotypeCount"
  unfolding site_mutated_def Let_def Mutate_eq split_conv site_child_genotype_def by simp

lemma WriteProbability_site_eq:
  "WriteProbability_site MutationProbability show_double sim site =
     (show_double (MutationProbability
          ((params' sim)\<lparr>has_mutation := has_mutation (params' sim) \<or> site_mutated sim site\<rparr>)
          [child_read site, mother_read site, father_read site])
        @ [CHR 0x09]
        @ (if has_mutation (params' sim) \<or> site_mutated sim site then ''1'' else ''0'')
        @ [CHR 0x0A],
      sim\<lparr>params' := (params' sim)\<lparr>has_mutation := False\<rparr>\<rparr>)"
proof -
  let ?m = "int (parent_genotypes_draw site) mod int kGenotypeCount"
  let ?f = "int (parent_genotypes_draw site) div int kGenotypeCount"
  let ?c = "site_child_genotype site"
  let ?T = "sim\<lparr>params' := (params' sim)\<lparr>has_mutation := True\<rparr>\<rparr>"
  define s1 where "s1 = (if int (germline_draw site) \<noteq> ?c then ?T else sim)"
  define s2 where "s2 = (if int (child_somatic_draw site) \<noteq> int (germline_draw site)
    then s1\<lparr>params' := (params' s1)\<lparr>has_mutation := True\<rparr>\<rparr> else s1)"
  define s3 where "s3 = (if int (mother_somatic_draw site) \<noteq> ?m
    then s2\<lparr>params' := (params' s2)\<lparr>has_mutation := True\<rparr>\<rparr> else s2)"
  define s4 where "s4 = (if int (father_somatic_draw site) \<noteq> ?f
    then s3\<lparr>params' := (params' s3)\<lparr>has_mutation := True\<rparr>\<rparr> else s3)"
  have s4: "s4 = sim\<lparr>params' := (params' sim)
      \<lparr>has_mutation := has_mutation (params' sim) \<or> site_mutated sim site\<rparr>\<rparr>"
    unfolding s4_def s3_def s2_def s1_def site_mutated_eq by auto
  have "WriteProbability_site MutationProbability show_double sim site =
     (show_double (MutationProbability (params' s4)
          [child_read site, mother_read site, father_read site])
        @ [CHR 0x09] @ (if has_mutation (params' s4) then ''1'' else ''0'') @ [CHR 0x0A],
      s4\<lparr>params' := (params' s4)\<lparr>has_mutation := False\<rparr>\<rparr>)"
    unfolding WriteProbability_site_def Let_def Mutate_eq split_conv RandomDiscreteChoice_def
      s4_def s3_def s2_def s1_def site_child_genotype_def ..
  then show ?thesis unfolding s4 by simp
qed

lemma WriteProbability_site_clear:
  assumes "\<not> has_mutation (params' sim)"
  shows "WriteProbability_site MutationProbability show_double sim site =
           (site_line MutationProbability show_double sim site, sim)"
  unfolding WriteProbability_site_eq site_line_def using assms by simp

lemma WriteProbability_loop_clear:
  assumes "\<not> has_mutation (params' sim)"
  shows "WriteProbability_loop MutationProbability show_double fout sim sites =
           (fout @ map (site_line MutationProbability show_double sim) sites, sim)"
  by (induction sites arbitrary: fout) (simp_all add: WriteProbability_site_clear [OF assms])



lemma GetChildGenotype_AC_AA:
  "GetChildGenotype 1 0 1 0 = 4" "GetChildGenotype 1 0 0 0 = 0"
  "GetChildGenotype (Suc 0) 0 (Suc 0) 0 = 4" "GetChildGenotype (Suc 0) 0 0 0 = 0"
  by (simp_all add: GetChildGenotype_def kGenotypeNumIndex_def GenotypeNumIndex_def
      kGenotypeCount_def)

lemma GetChildGenotype_AA_AA:
  "GetChildGenotype 0 0 1 0 = 0" "GetChildGenotype 0 0 (Suc 0) 0 = 0"
  by (simp_all add: GetChildGenotype_def kGenotypeNumIndex_def GenotypeNumIndex_def
      kGenotypeCount_def)

lemma site_mutated_examples:
  "site_mutated sim site_AC_AA" "\<not> site_mutated sim site_AA_AA"
  by (simp_all add: site_mutated_eq site_child_genotype_def site_AC_AA_def site_AA_AA_def
      kGenotypeCount_def GetChildGenotype_AC_AA GetChildGenotype_AA_AA)

lemma nucleotide_substitution_zero:
  "nucleotide_substitution 0 (a, b) = (if a = b then 1 else 0)"
  by (simp add: nucleotide_substitution_def)

lemma SomaticProbabilityMat_zero:
  assumes "g < 16" and "r < 16"
  shows "SomaticProbabilityMat 0 (g, r) = (if g = r then 1 else 0)"
proof -
  have b: "g div 4 < 4" "r div 4 < 4" "g mod 4 < 4" "r mod 4 < 4" using assms by simp_all
  have "SomaticProbabilityMat 0 (g div 4 * 4 + g mod 4, r div 4 * 4 + r mod 4)
      = round_double (nucleotide_substitution 0 (g div 4, r div 4)
                      * nucleotide_substitution 0 (g mod 4, r mod 4))"
    unfolding SomaticProbabilityMat_def by (rule KroneckerProduct_4_4_entry [OF b])
  moreover have "g = r \<longleftrightarrow> g div 4 = r div 4 \<and> g mod 4 = r mod 4"
    by (metis div_mult_mod_eq)
  ultimately show ?thesis by (simp add: nucleotide_substitution_zero)
qed

lemma somatic_rate_zero_keeps_genotype:
  assumes "somatic_probability_mat (params' sim) = SomaticProbabilityMat 0"
    and "0 \<le> genotype_idx" and "genotype_idx < int kGenotypeCount"
    and "possible_draw kGenotypeCount (Mutate_mat sim genotype_idx False (- 1)) random"
  shows "Mutate sim genotype_idx False (- 1) random = (genotype_idx, sim)"
proof -
  have g: "nat genotype_idx < 16" using assms(2,3) by (simp add: kGenotypeCount_def)
  from assms(4) have r: "random < 16"
    and w: "0 < SomaticProbabilityMat 0 (nat genotype_idx, random)"
    by (simp_all add: possible_draw_def Mutate_mat_def assms(1) kGenotypeCount_def)
  from w have "nat genotype_idx = random"
    unfolding SomaticProbabilityMat_zero [OF g r] by (simp split: if_splits)
  then have "int random = genotype_idx" using assms(2) by simp
  then show ?thesis by (simp add: Mutate_eq)
qed

lemma GermlineProbabilityMatSingle_zero:
  "GermlineProbabilityMatSingle 0 (0, 0) = 1" "GermlineProbabilityMatSingle 0 (0, 1) = 1 / 2"
  "GermlineProbabilityMatSingle 0 (1, 1) = 1 / 2"
  "GermlineProbabilityMatSingle 0 (0, Suc 0) = 1 / 2"
  "GermlineProbabilityMatSingle 0 (Suc 0, Suc 0) = 1 / 2"
  by (simp_all add: GermlineProbabilityMatSingle_def nucleotide_substitution_def
      kGenotypeNumIndex_def GenotypeNumIndex_def)

lemma GermlineProbabilityMat_zero_AC_AA:
  "GermlineProbabilityMat 0 (0, 16) = 1 / 2" "GermlineProbabilityMat 0 (4, 16) = 1 / 2"
proof -
  have "GermlineProbabilityMat 0 (0 * 4 + 0, 1 * 16 + 0)
      = round_double (GermlineProbabilityMatSingle 0 (0, 1) * GermlineProbabilityMatSingle 0 (0, 0))"
    unfolding GermlineProbabilityMat_def by (rule KroneckerProduct_4_16_entry) simp_all
  then show "GermlineProbabilityMat 0 (0, 16) = 1 / 2"
    by (simp add: GermlineProbabilityMatSingle_zero)
  have "GermlineProbabilityMat 0 (1 * 4 + 0, 1 * 16 + 0)
      = round_double (GermlineProbabilityMatSingle 0 (1, 1) * GermlineProbabilityMatSingle 0 (0, 0))"
    unfolding GermlineProbabilityMat_def by (rule KroneckerProduct_4_16_entry) simp_all
  then show "GermlineProbabilityMat 0 (4, 16) = 1 / 2"
    by (simp add: GermlineProbabilityMatSingle_zero)
qed


lemma germline_draw_flags_some_child:
  "\<exists>rand1. has_mutation (params' (snd (Mutate sim (GetChildGenotype 1 0 rand1 0) True 16 random)))"
proof (cases "random = 0")
  case True
  then have "has_mutation (params' (snd (Mutate sim (GetChildGenotype 1 0 1 0) True 16 random)))"
    by (simp add: Mutate_eq GetChildGenotype_AC_AA)
  then show ?thesis by blast
next
  case False
  then have "has_mutation (params' (snd (Mutate sim (GetChildGenotype 1 0 0 0) True 16 random)))"
    by (simp add: Mutate_eq GetChildGenotype_AC_AA)
  then show ?thesis by blast
qed

section \<open>Claims\<close>

text \<open>
  C1. Claimed: with germline rate 0 and somatic rate 0 the simulator never sets the mutation
  flag. What the code does at rates 0 and 0: the germline call of \<open>Mutate\<close> draws the child
  genotype from the column of the parent pair, whatever genotype \<open>GetChildGenotype\<close> picked
  before, and compares the two. For a mother AC and a father AA the column gives AA and CA
  the weight 1/2 each; when \<open>GetChildGenotype\<close> picked CA and the draw gives AA, the flag is set
  and the line of the site ends with 1. Every draw below has positive weight.
\<close>

theorem C1_rate_zero_flag_set:
  "SimulationModel_ctor default_TrioModel 4 0 0 = Inr \<lparr>params' = default_TrioModel, coverage' = 4\<rparr>
   \<and> possible_draw (kGenotypeCount * kGenotypeCount) (population_priors default_TrioModel) 1
   \<and> GetChildGenotype 1 0 1 0 = 4
   \<and> possible_draw kGenotypeCount
        (Mutate_mat \<lparr>params' = default_TrioModel, coverage' = 4\<rparr> 4 True 16) 0
   \<and> possible_draw kGenotypeCount
        (Mutate_mat \<lparr>params' = default_TrioModel, coverage' = 4\<rparr> 0 False (- 1)) 0
   \<and> possible_draw kGenotypeCount
        (Mutate_mat \<lparr>params' = default_TrioModel, coverage' = 4\<rparr> 1 False (- 1)) 1
   \<and> has_mutation (params' (snd (Mutate \<lparr>params' = default_TrioModel, coverage' = 4\<rparr>
        4 True 16 0)))
   \<and> fst (WriteProbability (\<lambda>p d. 0) (\<lambda>r. ''p'')
          \<lparr>params' = default_TrioModel, coverage' = 4\<rparr> [site_AC_AA])
       = [''p'' @ [CHR 0x09] @ ''1'' @ [CHR 0x0A]]"
proof -
  let ?sim = "\<lparr>params' = default_TrioModel, coverage' = 4\<rparr>"
  have ctor: "SimulationModel_ctor default_TrioModel 4 0 0 = Inr ?sim"
    by (simp add: SimulationModel_ctor_def set_germline_mutation_rate_def
        set_somatic_mutation_rate_def TrioModel_set_germline_mutation_rate_def
        TrioModel_set_somatic_mutation_rate_def default_TrioModel_def)
  have prior: "possible_draw (kGenotypeCount * kGenotypeCount)
      (population_priors default_TrioModel) 1"
    by (simp add: possible_draw_def kGenotypeCount_def default_TrioModel_def)
  have germ: "possible_draw kGenotypeCount (Mutate_mat ?sim 4 True 16) 0"
    by (simp add: possible_draw_def kGenotypeCount_def Mutate_mat_def default_TrioModel_def
        GermlineProbabilityMat_zero_AC_AA)
  have som0: "possible_draw kGenotypeCount (Mutate_mat ?sim 0 False (- 1)) 0"
    using SomaticProbabilityMat_zero [of 0 0]
    by (simp add: possible_draw_def kGenotypeCount_def Mutate_mat_def default_TrioModel_def)
  have som1: "possible_draw kGenotypeCount (Mutate_mat ?sim 1 False (- 1)) 1"
    using SomaticProbabilityMat_zero [of 1 1]
    by (simp add: possible_draw_def kGenotypeCount_def Mutate_mat_def default_TrioModel_def)
  have flag: "has_mutation (params' (snd (Mutate ?sim 4 True 16 0)))"
    by (simp add: Mutate_eq)
  have h: "\<not> has_mutation (params' ?sim)" by (simp add: default_TrioModel_def)
  have out: "fst (WriteProbability (\<lambda>p d. 0) (\<lambda>r. ''p'') ?sim [site_AC_AA])
      = [''p'' @ [CHR 0x09] @ ''1'' @ [CHR 0x0A]]"
    unfolding WriteProbability_def WriteProbability_loop_clear [OF h]
    by (simp add: site_line_def site_mutated_examples)
  from ctor prior GetChildGenotype_AC_AA(1) germ som0 som1 flag out show ?thesis by blast
qed

text \<open>
  C2, as the code has it. For every coverage from 1 to 15 (the coverages for which
  \<open>4 ^ coverage\<close> fits an \<^verbatim>\<open>int\<close>), \<open>EnumerateNucleotideCounts coverage\<close> returns a matrix of
  \<open>4 ^ coverage\<close> rows, each of 4 non-negative counts that sum to the coverage (the identity
  matrix, that is the 4 unit vectors, for coverage 1), and \<open>GetUniqueReadDataVector\<close> applied
  to it yields exactly \<open>C(coverage + 3, 3)\<close> distinct count vectors: all the vectors of four
  non-negative counts that sum to the coverage.
\<close>

theorem C2_enumeration:
  assumes "1 \<le> coverage" and "coverage \<le> 15"
  shows "\<exists>mat. EnumerateNucleotideCounts uninit coverage = Some (Inr mat)
           \<and> length mat = 4 ^ nat coverage
           \<and> (\<forall>row\<in>set mat. length row = 4 \<and> (\<forall>x\<in>set row. 0 \<le> x) \<and> sum_list row = coverage)
           \<and> (coverage = 1 \<longrightarrow> mat = identity_mat)
           \<and> distinct (GetUniqueReadDataVector mat)
           \<and> length (GetUniqueReadDataVector mat) = (nat coverage + 3) choose 3
           \<and> set (map (map uint) (GetUniqueReadDataVector mat)) = compositions (nat coverage)"
proof -
  define n where "n = nat coverage - 1"
  have n: "n < 15" and c: "coverage = int (Suc n)" and nc: "nat coverage = Suc n"
    using assms by (simp_all add: n_def)
  have rows: "length row = 4 \<and> (\<forall>x\<in>set row. 0 \<le> x) \<and> sum_list row = coverage"
    if "row \<in> set (enum_rows n)" for row
    using that unfolding set_enum_rows compositions_def c by simp
  have base: "coverage = 1 \<longrightarrow> enum_rows n = identity_mat"
    unfolding c by auto
  have len: "length (enum_rows n) = 4 ^ nat coverage"
    unfolding nc by (rule length_enum_rows)
  have cnt: "length (GetUniqueReadDataVector (enum_rows n)) = (nat coverage + 3) choose 3"
    unfolding nc by (rule length_unique_enum_rows [OF n])
  have e: "EnumerateNucleotideCounts uninit coverage = Some (Inr (enum_rows n))"
    unfolding c by (rule EnumerateNucleotideCounts_eq [OF n])
  have d: "distinct (GetUniqueReadDataVector (enum_rows n))"
    by (rule unique_enum_rows_facts(1) [OF n])
  have s: "set (map (map uint) (GetUniqueReadDataVector (enum_rows n)))
      = compositions (nat coverage)"
    unfolding nc by (rule unique_enum_rows_facts(4) [OF n])
  from e len rows base d cnt s show ?thesis by blast
qed

text \<open>The counts for coverage 1, 2 and 4 are 4, 10 and 35.\<close>

theorem C2_enumeration_witness:
  "(\<exists>mat. EnumerateNucleotideCounts (\<lambda>c i. []) 1 = Some (Inr mat) \<and> mat = identity_mat
          \<and> length (GetUniqueReadDataVector mat) = 4)
   \<and> (\<exists>mat. EnumerateNucleotideCounts (\<lambda>c i. []) 2 = Some (Inr mat) \<and> length mat = 16
          \<and> length (GetUniqueReadDataVector mat) = 10)
   \<and> (\<exists>mat. EnumerateNucleotideCounts (\<lambda>c i. []) 4 = Some (Inr mat) \<and> length mat = 256
          \<and> length (GetUniqueReadDataVector mat) = 35)"
proof -
  have b: "(4::nat) choose 3 = 4" "(5::nat) choose 3 = 10" "(7::nat) choose 3 = 35"
    by code_simp+
  have n: "nat 1 + 3 = 4" "nat 2 + 3 = 5" "nat 4 + 3 = 7" "(4::nat) ^ nat 2 = 16"
    "(4::nat) ^ nat 4 = 256"
    by simp_all
  from C2_enumeration [of 1 "\<lambda>c i. []"]
  obtain m1 where m1: "EnumerateNucleotideCounts (\<lambda>c i. []) 1 = Some (Inr m1)"
    "m1 = identity_mat" "length (GetUniqueReadDataVector m1) = 4"
    unfolding n b by auto
  from C2_enumeration [of 2 "\<lambda>c i. []"]
  obtain m2 where m2: "EnumerateNucleotideCounts (\<lambda>c i. []) 2 = Some (Inr m2)"
    "length m2 = 16" "length (GetUniqueReadDataVector m2) = 10"
    unfolding n b by auto
  from C2_enumeration [of 4 "\<lambda>c i. []"]
  obtain m4 where m4: "EnumerateNucleotideCounts (\<lambda>c i. []) 4 = Some (Inr m4)"
    "length m4 = 256" "length (GetUniqueReadDataVector m4) = 35"
    unfolding n b by auto
  from m1 m2 m4 show ?thesis by blast
qed

text \<open>
  The claim as first stated, for every coverage from 1 on, fails at coverage 16: the number of
  rows \<open>4 ^ 16\<close> does not fit an \<^verbatim>\<open>int\<close> and no matrix is produced.
\<close>

theorem C2_coverage_16_counterexample:
  "\<not> (\<exists>mat. EnumerateNucleotideCounts (\<lambda>c i. []) 16 = Some (Inr mat))"
  by (simp add: EnumerateNucleotideCounts_overflow)



text \<open>
  C4. For every 4-entry concentration vector \<open>alpha\<close> and every read-count 4-tuple \<open>data\<close>,
  \<open>DirichletMultinomialLog alpha data\<close> is
  \<open>lgamma (sum alpha) - lgamma (n + sum alpha) + (sum over i of lgamma (alpha i + n i) - lgamma (alpha i))\<close>,
  where \<open>n i\<close> is the i-th read count and \<open>n\<close> the sum of the four (over the reals, for any
  function \<open>lgamma\<close>).
\<close>

theorem C4_DirichletMultinomialLog:
  "DirichletMultinomialLog lgamma alpha data =
     lgamma (\<Sum>i<4. alpha i)
       - lgamma (real_of_int (\<Sum>i<4. uint (data ! i)) + (\<Sum>i<4. alpha i))
       + (\<Sum>i<4. lgamma (alpha i + real_of_int (uint (data ! i))) - lgamma (alpha i))"
  unfolding DirichletMultinomialLog_def Let_def kNucleotideCount_def foldl_add_upt_4 sum_lessThan_4
  by simp




text \<open>
  C6. Setting a germline or somatic mutation rate outside [0, 1] is rejected before any
  transition matrix is built: both setters of the simulator, and the constructor, return
  \<open>Invalid_parameter\<close> and no simulator state, whatever the state they are called in; a rate in
  [0, 1] is stored with the matrix built from it.
\<close>

theorem C6_rate_setters_reject:
  "(rate < 0 \<or> 1 < rate \<longrightarrow>
      set_germline_mutation_rate rate sim = Inl Invalid_parameter
      \<and> set_somatic_mutation_rate rate sim = Inl Invalid_parameter
      \<and> SimulationModel_ctor default_params coverage rate somatic_rate = Inl Invalid_parameter
      \<and> (0 \<le> germline_rate \<and> germline_rate \<le> 1 \<longrightarrow>
           SimulationModel_ctor default_params coverage germline_rate rate
             = Inl Invalid_parameter))
   \<and> (0 \<le> rate \<and> rate \<le> 1 \<longrightarrow>
        set_germline_mutation_rate rate sim
          = Inr (sim\<lparr>params' := (params' sim)\<lparr>germline_mutation_rate := rate,
                   germline_probability_mat := GermlineProbabilityMat rate\<rparr>\<rparr>)
        \<and> set_somatic_mutation_rate rate sim
          = Inr (sim\<lparr>params' := (params' sim)\<lparr>somatic_mutation_rate := rate,
                   somatic_probability_mat := SomaticProbabilityMat rate\<rparr>\<rparr>))"
  by (auto simp: set_germline_mutation_rate_def set_somatic_mutation_rate_def
      TrioModel_set_germline_mutation_rate_def TrioModel_set_somatic_mutation_rate_def
      SimulationModel_ctor_def)

theorem C6_rate_setters_witness:
  "set_germline_mutation_rate (3 / 2) \<lparr>params' = default_TrioModel, coverage' = 4\<rparr>
     = Inl Invalid_parameter
   \<and> set_somatic_mutation_rate (- 1) \<lparr>params' = default_TrioModel, coverage' = 4\<rparr>
     = Inl Invalid_parameter
   \<and> germline_mutation_rate (params' (projr (set_germline_mutation_rate (1 / 2)
        \<lparr>params' = default_TrioModel, coverage' = 4\<rparr>))) = 1 / 2"
proof -
  let ?sim = "\<lparr>params' = default_TrioModel, coverage' = 4\<rparr>"
  note c6 = C6_rate_setters_reject [of _ ?sim default_TrioModel 4 0 0]
  have a: "set_germline_mutation_rate (3 / 2) ?sim = Inl Invalid_parameter"
    using c6 [of "3 / 2"] by simp
  have b: "set_somatic_mutation_rate (- 1) ?sim = Inl Invalid_parameter"
    using c6 [of "- 1"] by simp
  have c: "germline_mutation_rate (params' (projr (set_germline_mutation_rate (1 / 2) ?sim)))
      = 1 / 2"
    using c6 [of "1 / 2"] by simp
  from a b c show ?thesis by blast
qed






text \<open>
  C9. Claimed: every entry of \<open>kTwoParentCounts\<close> is initialised, and entry \<open>(i, j, k)\<close> is the
  number of occurrences of nucleotide \<open>k\<close> among the alleles of genotypes \<open>i\<close> and \<open>j\<close>.
  What the code computes: \<open>ZeroMatrix16_16_4d\<close> zeroes column 0 only, so for every mother
  genotype \<open>i\<close>, father genotype \<open>j\<close> and nucleotide \<open>k\<close> the entry is that number of
  occurrences added to 0 when \<open>j = 0\<close>, and added to the uninitialised content of the cell
  when \<open>j > 0\<close>.
\<close>

theorem C9_kTwoParentCounts_entry:
  assumes "i < kGenotypeCount" and "j < kGenotypeCount" and "k < kNucleotideCount"
  shows "kTwoParentCounts uninit (i, j, k) =
           (if j = 0 then 0 else uninit (i, j, k)) + real (allele_occurrences i j k)
         \<and> allele_occurrences i j k \<le> 4"
proof -
  have i: "i < 16" and j: "j < 16"
    using assms by (simp_all add: kGenotypeCount_def)
  have "length (GenotypeNumIndex ! i @ GenotypeNumIndex ! j) = 4"
    by (simp add: GenotypeNumIndex_row [OF i] GenotypeNumIndex_row [OF j])
  then have "allele_occurrences i j k \<le> 4"
    unfolding allele_occurrences_def by (metis count_le_length)
  then show ?thesis
    unfolding kTwoParentCounts_def using TwoParentCounts_entry [OF assms] by simp
qed

theorem C9_kTwoParentCounts_uninitialised:
  "kTwoParentCounts (\<lambda>c. 7) (0, 1, 0) = 10 \<and> allele_occurrences 0 1 0 = 3
     \<and> kTwoParentCounts (\<lambda>c. 7) (0, 0, 0) = 4 \<and> allele_occurrences 0 0 0 = 4"
proof -
  have b: "(0::nat) < kGenotypeCount" "(1::nat) < kGenotypeCount" "(0::nat) < kNucleotideCount"
    by (simp_all add: kGenotypeCount_def kNucleotideCount_def)
  have o1: "allele_occurrences 0 1 0 = 3" and o0: "allele_occurrences 0 0 0 = 4"
    by (simp_all add: allele_occurrences_def GenotypeNumIndex_def)
  from C9_kTwoParentCounts_entry [OF b(1) b(2) b(3), of "\<lambda>c. 7"]
       C9_kTwoParentCounts_entry [OF b(1) b(1) b(3), of "\<lambda>c. 7"] o1 o0
  show ?thesis by simp
qed

text \<open>
  C10. For every mother and father genotype index in [0, 16) and every outcome of the two
  \<^verbatim>\<open>rand()\<close> calls that pick one allele of each parent, \<open>GetChildGenotype\<close> returns a
  genotype index in [0, 16), so the \<open>- 1\<close> branch is not taken; the reason is that every
  ordered pair of nucleotide indices is a row of the genotype index table.
\<close>

theorem C10_GetChildGenotype_in_range:
  assumes "mother_genotype < kGenotypeCount" and "father_genotype < kGenotypeCount"
  shows "0 \<le> GetChildGenotype mother_genotype father_genotype rand1 rand2
           \<and> GetChildGenotype mother_genotype father_genotype rand1 rand2 < int kGenotypeCount
           \<and> GetChildGenotype mother_genotype father_genotype rand1 rand2 \<noteq> - 1
           \<and> (\<forall>a b. a < kNucleotideCount \<and> b < kNucleotideCount \<longrightarrow>
                 (\<exists>i. i < kGenotypeCount \<and> kGenotypeNumIndex i 0 = int a
                        \<and> kGenotypeNumIndex i 1 = int b))"
proof -
  have m: "mother_genotype < 16" and f: "father_genotype < 16"
    using assms by (simp_all add: kGenotypeCount_def)
  let ?a1 = "if rand1 mod 2 = 0 then mother_genotype div 4 else mother_genotype mod 4"
  let ?a2 = "if rand2 mod 2 = 0 then father_genotype div 4 else father_genotype mod 4"
  have b1: "?a1 < 4" using m by auto
  have b2: "?a2 < 4" using f by auto
  have "?a1 * 4 + ?a2 < 16" using b1 b2 by linarith
  then have range: "0 \<le> GetChildGenotype mother_genotype father_genotype rand1 rand2
      \<and> GetChildGenotype mother_genotype father_genotype rand1 rand2 < int kGenotypeCount
      \<and> GetChildGenotype mother_genotype father_genotype rand1 rand2 \<noteq> - 1"
    unfolding GetChildGenotype_eq [OF m f] kGenotypeCount_def by linarith
  have rows: "\<forall>a b. a < kNucleotideCount \<and> b < kNucleotideCount \<longrightarrow>
      (\<exists>i. i < kGenotypeCount \<and> kGenotypeNumIndex i 0 = int a \<and> kGenotypeNumIndex i 1 = int b)"
    using table_row_of_pair unfolding kNucleotideCount_def by blast
  from range rows show ?thesis by blast
qed

theorem C10_GetChildGenotype_witness:
  "GetChildGenotype 1 0 1 0 = 4 \<and> 0 \<le> GetChildGenotype 1 0 1 0
     \<and> GetChildGenotype 1 0 1 0 < int kGenotypeCount"
proof -
  have m: "(1::nat) < kGenotypeCount" and f: "(0::nat) < kGenotypeCount"
    by (simp_all add: kGenotypeCount_def)
  have v: "GetChildGenotype 1 0 1 0 = 4"
    by (simp add: GetChildGenotype_def kGenotypeNumIndex_def GenotypeNumIndex_def
        kGenotypeCount_def)
  from C10_GetChildGenotype_in_range [OF m f, of 1 0] v show ?thesis by simp
qed

end
